theory Spec2Isabelle
  imports Main "HOL-Library.Word"
begin

unbundle bit_operations_syntax

section \<open>Data model of the versioned store (package storage)\<close>

type_synonym u32 = "32 word"
type_synonym u64 = "64 word"

text \<open>
  \<^verbatim>\<open>type Node struct { Location uint64; Dep uint64; Children []uint64; Key string; Value string }\<close>

  A nil slice and an empty slice are both the empty list. The protobuf message
  \<^verbatim>\<open>db.Node\<close> carries the same five fields, so the same record stands for it.
\<close>

record Node =
  Location :: u64
  Dep :: u64
  Children :: "u64 list"
  Key :: string
  Value :: string

text \<open>
  \<^verbatim>\<open>type Store struct { Nodes []Node; MemLocation map[uint64]int; lock sync.RWMutex; Size int }\<close>

  The map of a Go struct's zero value is nil: reading it finds nothing, writing it
  panics. \<open>None\<close> is the nil map. The model is sequential, so the lock has no field.
\<close>

record Store =
  Nodes :: "Node list"
  MemLocation :: "(u64 \<rightharpoonup> int) option"
  Size :: int

text \<open>
  What a Go call can do besides returning: a run-time panic, or \<^verbatim>\<open>log.Fatalln\<close>, which
  ends the process. A Go \<^verbatim>\<open>error\<close> value is its message.
\<close>

datatype panic = NilDereference | IndexOutOfRange | NilMapWrite

datatype error = Error string

datatype 'a outcome = Returns 'a | Panics panic | Exits

text \<open>Sequencing: a panic or an exit of the first call ends the caller too.\<close>

definition then_do :: "'a outcome \<Rightarrow> ('a \<Rightarrow> 'b outcome) \<Rightarrow> 'b outcome" where
  "then_do m f = (case m of Returns x \<Rightarrow> f x | Panics e \<Rightarrow> Panics e | Exits \<Rightarrow> Exits)"

text \<open>\<^verbatim>\<open>math.MaxUint64\<close>, the dep of the root.\<close>

definition MaxUint64 :: u64 where
  "MaxUint64 = - 1"

text \<open>The zero value \<^verbatim>\<open>Node{}\<close>, and the root that \<^verbatim>\<open>Init\<close> builds.\<close>

definition zero_Node :: Node where
  "zero_Node = \<lparr>Location = 0, Dep = 0, Children = [], Key = [], Value = []\<rparr>"

definition root_Node :: Node where
  "root_Node = \<lparr>Location = 0, Dep = MaxUint64, Children = [], Key = [], Value = []\<rparr>"

definition zero_Store :: Store where
  "zero_Store = \<lparr>Nodes = [], MemLocation = None, Size = 0\<rparr>"

section \<open>Operations of the store\<close>

text \<open>
  \<^verbatim>\<open>func (s *Store) Init()\<close>: when there is no node yet, a fresh map, the root appended,
  and location 0 mapped to slot 0.
\<close>

definition Store_Init :: "Store \<Rightarrow> Store" where
  "Store_Init s =
     (if length (Nodes s) = 0
      then s\<lparr>MemLocation := Some (Map.empty(0 \<mapsto> 0)), Nodes := Nodes s @ [root_Node]\<rparr>
      else s)"

text \<open>
  \<^verbatim>\<open>func (s *Store) newNode(location, dep, key, value)\<close>: \<^verbatim>\<open>Size\<close> is incremented and the
  node appended before the map is written; the slot is the length before the append.
  Writing a nil map panics.
\<close>

definition newNode :: "Store \<Rightarrow> u64 \<Rightarrow> u64 \<Rightarrow> string \<Rightarrow> string \<Rightarrow> Store outcome" where
  "newNode s location dep key val =
     (let node = \<lparr>Location = location, Dep = dep, Children = [], Key = key, Value = val\<rparr>;
          memLoc = int (length (Nodes s))
      in case MemLocation s of
           None \<Rightarrow> Panics NilMapWrite
         | Some m \<Rightarrow>
             Returns (s\<lparr>Size := Size s + 1,
                        Nodes := Nodes s @ [node],
                        MemLocation := Some (m(location \<mapsto> memLoc))\<rparr>))"

text \<open>
  The read \<^verbatim>\<open>memLoc, ok := s.MemLocation[loc]\<close>; a nil map has no entry.
\<close>

definition MemLocation_lookup :: "Store \<Rightarrow> u64 \<Rightarrow> int option" where
  "MemLocation_lookup s loc = (case MemLocation s of None \<Rightarrow> None | Some m \<Rightarrow> m loc)"

text \<open>
  \<^verbatim>\<open>func (s *Store) GetNode(loc uint64) *Node\<close>: nil when the map has no entry, else the
  address of \<^verbatim>\<open>s.Nodes[memLoc]\<close>. The pointer is the slot index; indexing the slice out
  of range panics.
\<close>

definition Store_GetNode :: "Store \<Rightarrow> u64 \<Rightarrow> nat option outcome" where
  "Store_GetNode s loc =
     (case MemLocation_lookup s loc of
        None \<Rightarrow> Returns None
      | Some memLoc \<Rightarrow>
          if 0 \<le> memLoc \<and> memLoc < int (length (Nodes s))
          then Returns (Some (nat memLoc))
          else Panics IndexOutOfRange)"

text \<open>
  The loop of \<^verbatim>\<open>Get\<close>. \<^verbatim>\<open>node.Key\<close> on a nil pointer panics. The loop has no bound:
  on a cycle of deps it never returns, which is the value \<open>None\<close>.
\<close>

partial_function (option) Get_loop ::
  "Store \<Rightarrow> string \<Rightarrow> nat option \<Rightarrow> (string \<times> error option) outcome option" where
  "Get_loop s key node =
     (case node of
        None \<Rightarrow> Some (Panics NilDereference)
      | Some p \<Rightarrow>
          if Key (Nodes s ! p) = key then Some (Returns (Value (Nodes s ! p), None))
          else if Dep (Nodes s ! p) = MaxUint64
          then Some (Returns ([], Some (Error (''Key '' @ key @ '' not found''))))
          else (case Store_GetNode s (Dep (Nodes s ! p)) of
                  Returns node' \<Rightarrow> Get_loop s key node'
                | Panics e \<Rightarrow> Some (Panics e)
                | Exits \<Rightarrow> Some Exits))"

text \<open>
  \<^verbatim>\<open>func (s *Store) Get(key string, loc uint64) (string, error)\<close>. The sleep that stands
  for the disk is left out.
\<close>

definition Store_Get :: "Store \<Rightarrow> string \<Rightarrow> u64 \<Rightarrow> (string \<times> error option) outcome option" where
  "Store_Get s key loc =
     (case Store_GetNode s loc of
        Returns node \<Rightarrow> Get_loop s key node
      | Panics e \<Rightarrow> Some (Panics e)
      | Exits \<Rightarrow> Some Exits)"

text \<open>
  \<^verbatim>\<open>func (self *Store) AddChild(location, child) *Node\<close>: the child is appended through
  the pointer, so the slot itself changes. The result is the pointer and the new store.
\<close>

definition Store_AddChild :: "Store \<Rightarrow> u64 \<Rightarrow> u64 \<Rightarrow> (nat \<times> Store) outcome" where
  "Store_AddChild s location child =
     then_do (Store_GetNode s location) (\<lambda>node.
       case node of
         None \<Rightarrow> Panics NilDereference
       | Some p \<Rightarrow>
           Returns (p, s\<lparr>Nodes :=
             (Nodes s)[p := (Nodes s ! p)\<lparr>Children := Children (Nodes s ! p) @ [child]\<rparr>]\<rparr>))"

text \<open>
  \<^verbatim>\<open>uint64(rand.Uint32()) + (uint64(utils.Hash2Uint(utils.Hash([]byte(key)))) << 32)\<close>,
  the expression of \<^verbatim>\<open>Set\<close> and of \<^verbatim>\<open>CreateNode\<close>. The draw of \<^verbatim>\<open>rand.Uint32()\<close> is the
  argument \<open>r\<close>. \<^verbatim>\<open>utils.Hash2Uint(utils.Hash([]byte(key)))\<close> is not part of the store's
  file: it is the argument \<open>hash32\<close>, any function from keys to 32 bits. Both are widened
  to 64 bits before the shift and the sum, as the conversions \<^verbatim>\<open>uint64(...)\<close> do.
\<close>

definition new_location :: "(string \<Rightarrow> u32) \<Rightarrow> u32 \<Rightarrow> string \<Rightarrow> u64" where
  "new_location hash32 r key = ucast r + push_bit 32 (ucast (hash32 key))"

text \<open>
  \<^verbatim>\<open>func (s *Store) Set(key, value, dep) uint64\<close>. The sleep that stands for the disk is
  left out.
\<close>

definition Store_Set ::
  "(string \<Rightarrow> u32) \<Rightarrow> u32 \<Rightarrow> Store \<Rightarrow> string \<Rightarrow> string \<Rightarrow> u64 \<Rightarrow> (u64 \<times> Store) outcome" where
  "Store_Set hash32 r s key val dep =
     (let loc = new_location hash32 r key
      in then_do (newNode s loc dep key val) (\<lambda>s'. Returns (loc, s')))"

text \<open>\<^verbatim>\<open>func (s *Store) AddNode(node *db.Node)\<close>; a nil message panics on the field read.\<close>

definition Store_AddNode :: "Store \<Rightarrow> Node option \<Rightarrow> Store outcome" where
  "Store_AddNode s node =
     (case node of
        None \<Rightarrow> Panics NilDereference
      | Some n \<Rightarrow> newNode s (Location n) (Dep n) (Key n) (Value n))"

text \<open>
  \<^verbatim>\<open>func (s *Store) RemoveNode(location uint64)\<close>: the first slot whose \<^verbatim>\<open>Location\<close> field
  equals the argument is overwritten with \<^verbatim>\<open>Node{Key: ""}\<close> and \<^verbatim>\<open>Size\<close> decremented;
  the loop returns there. \<open>RemoveNode_loop\<close> is \<open>None\<close> when no slot matches.
\<close>

fun RemoveNode_loop :: "u64 \<Rightarrow> Node list \<Rightarrow> Node list option" where
  "RemoveNode_loop location [] = None"
| "RemoveNode_loop location (node # nodes) =
     (if Location node = location then Some (zero_Node # nodes)
      else map_option ((#) node) (RemoveNode_loop location nodes))"

definition RemoveNode :: "Store \<Rightarrow> u64 \<Rightarrow> Store" where
  "RemoveNode s location =
     (case RemoveNode_loop location (Nodes s) of
        None \<Rightarrow> s
      | Some nodes \<Rightarrow> s\<lparr>Nodes := nodes, Size := Size s - 1\<rparr>)"


section \<open>The server (package main)\<close>

text \<open>
  \<^verbatim>\<open>type Server struct { Servers, AvailableServers []string; Self, Initial string;
  Threshold int; lock sync.RWMutex; mergeFunction map[uint64]string;
  globalMergeFunction string }\<close>

  The handlers modelled here only read \<^verbatim>\<open>mergeFunction\<close>, and a nil map reads as an
  empty one. The process-wide \<^verbatim>\<open>store\<close> is passed to every handler and returned.
\<close>

record Server =
  Servers :: "string list"
  AvailableServers :: "string list"
  Self :: string
  Initial :: string
  Threshold :: int
  mergeFunction :: "u64 \<rightharpoonup> string"
  globalMergeFunction :: string

text \<open>The protobuf responses; a handler returns a pointer to one, which may be nil.\<close>

datatype Empty = Empty

datatype GetResponse = GetResponse string

datatype SetResponse = SetResponse u64

datatype SetIndexingLockResponse = SetIndexingLockResponse (Success: bool)

text \<open>\<^verbatim>\<open>db.SplitRequest\<close>, as \<^verbatim>\<open>splitRange\<close> fills it.\<close>

record SplitRequest =
  Left :: u32
  Right :: u32
  Mid :: u32
  LeftServer :: string
  RightServer :: string

text \<open>
  The only field of \<^verbatim>\<open>indexing.Service\<close> that the server's file touches directly is
  \<^verbatim>\<open>Lock\<close>; the rest of the service is the record's extension.
\<close>

record Service =
  Lock :: bool

text \<open>
  What a handler consults outside the two files: the indexing service's queries
  (\<^verbatim>\<open>Locate\<close>, \<^verbatim>\<open>LocateKey\<close>, \<^verbatim>\<open>Range\<close>), the hash helpers of \<^verbatim>\<open>utils\<close> (\<^verbatim>\<open>KeyHash\<close>, and
  \<open>Hash32\<close> for \<^verbatim>\<open>Hash2Uint\<close> after \<^verbatim>\<open>Hash\<close>), \<^verbatim>\<open>grpc.Dial\<close> (its error, by address), the
  JSON codec and the action runtime (\<^verbatim>\<open>utils.CallAction\<close>), and what the peer at an
  address answers to each RPC. A decoded \<^verbatim>\<open>*db.Nodes\<close> may be the nil pointer.

  Two stretches of \<^verbatim>\<open>server.go\<close> consist of RPCs to other servers and leave the local
  state as those servers and the indexing tables decide; they are fields too:
  \<open>redistribute\<close> stands for lines 181 to 192 of \<^verbatim>\<open>Set\<close> (\<^verbatim>\<open>distributeNodes\<close>,
  \<^verbatim>\<open>RemoveChildren\<close>, the \<^verbatim>\<open>AddChild\<close> of each merged child), and \<open>migrate\<close> for lines 365
  to 435 of \<^verbatim>\<open>splitRange\<close> (\<^verbatim>\<open>AddNode\<close> of every selected node at the peer, the transfer of
  merge functions, the \<^verbatim>\<open>Split\<close> broadcast, the local \<^verbatim>\<open>RemoveNode\<close>s and the unlock).
\<close>

record Env =
  Locate :: "u32 \<Rightarrow> string"
  LocateKey :: "string \<Rightarrow> string"
  Range :: "string \<Rightarrow> u32 \<times> u32"
  KeyHash :: "u64 \<Rightarrow> u32"
  Hash32 :: "string \<Rightarrow> u32"
  Dial :: "string \<Rightarrow> error option"
  Marshal :: "Node \<Rightarrow> string"
  CallAction :: "string \<Rightarrow> string \<Rightarrow> string"
  Unmarshal :: "string \<Rightarrow> error + Node list option"
  Get_reply :: "string \<Rightarrow> string \<Rightarrow> u64 \<Rightarrow> GetResponse option \<times> error option"
  Set_reply :: "string \<Rightarrow> string \<Rightarrow> string \<Rightarrow> u64 \<Rightarrow> SetResponse option \<times> error option"
  GetNode_reply :: "string \<Rightarrow> u64 \<Rightarrow> Node option \<times> error option"
  AddChild_reply :: "string \<Rightarrow> u64 \<Rightarrow> u64 \<Rightarrow> Node option \<times> error option"
  RemoveChildren_reply :: "string \<Rightarrow> u64 \<Rightarrow> Empty option \<times> error option"
  SetIndexingLock_reply :: "string \<Rightarrow> bool \<Rightarrow> SetIndexingLockResponse option \<times> error option"
  redistribute :: "Server \<Rightarrow> Store \<Rightarrow> Node \<Rightarrow> Node list option \<Rightarrow> Store outcome"
  migrate :: "Server \<Rightarrow> Store \<Rightarrow> string \<Rightarrow> Node list \<Rightarrow> SplitRequest \<Rightarrow> (Server \<times> Store) outcome"

subsection \<open>Handlers that forward\<close>

text \<open>
  \<^verbatim>\<open>func (self *Server) RemoveChildren(ctx, in) (*db.Empty, error)\<close>. The children are
  read once, before the loop; \<^verbatim>\<open>RemoveNode\<close> never changes the number of slots, so the
  pointer stays good for the final \<^verbatim>\<open>node.Children = nil\<close>.
\<close>

definition Server_RemoveChildren ::
  "Env \<Rightarrow> Server \<Rightarrow> Store \<Rightarrow> u64 \<Rightarrow> (Store \<times> Empty option \<times> error option) outcome" where
  "Server_RemoveChildren env self store location =
     (let address = Locate env (KeyHash env location)
      in if address = Self self
         then then_do (Store_GetNode store location) (\<lambda>node.
           case node of
             None \<Rightarrow> Panics NilDereference
           | Some p \<Rightarrow>
               let store' = foldl RemoveNode store (Children (Nodes store ! p))
               in Returns (store'\<lparr>Nodes := (Nodes store')[p := (Nodes store' ! p)\<lparr>Children := []\<rparr>]\<rparr>,
                           Some Empty, None))
         else (case Dial env address of
                 Some err \<Rightarrow> Returns (store, Some Empty, Some err)
               | None \<Rightarrow> Returns (store, RemoveChildren_reply env address location)))"

text \<open>\<^verbatim>\<open>func (self *Server) AddChild(ctx, in) (*db.Node, error)\<close>.\<close>

definition Server_AddChild ::
  "Env \<Rightarrow> Server \<Rightarrow> Store \<Rightarrow> u64 \<Rightarrow> u64 \<Rightarrow> (Store \<times> Node option \<times> error option) outcome" where
  "Server_AddChild env self store location child =
     (let address = Locate env (KeyHash env location)
      in if address = Self self
         then then_do (Store_AddChild store location child) (\<lambda>(p, store').
           let node = Nodes store' ! p
           in Returns (store',
                Some \<lparr>Location = Location node, Dep = Dep node, Children = Children node,
                      Key = Key node, Value = Value node\<rparr>,
                None))
         else (case Dial env address of
                 Some err \<Rightarrow> Returns (store, Some zero_Node, Some err)
               | None \<Rightarrow> Returns (store, AddChild_reply env address location child)))"

text \<open>
  \<^verbatim>\<open>func (s *Server) Get(ctx, in) (*db.GetResponse, error)\<close>; \<open>None\<close> when the store's
  walk never ends.
\<close>

definition Server_Get ::
  "Env \<Rightarrow> Server \<Rightarrow> Store \<Rightarrow> string \<Rightarrow> u64 \<Rightarrow> (GetResponse option \<times> error option) outcome option" where
  "Server_Get env s store key location =
     (let address = LocateKey env key
      in if address = Self s
         then (case Store_Get store key location of
                 None \<Rightarrow> None
               | Some (Returns (val, err)) \<Rightarrow> Some (Returns (Some (GetResponse val), err))
               | Some (Panics e) \<Rightarrow> Some (Panics e)
               | Some Exits \<Rightarrow> Some Exits)
         else (case Dial env address of
                 Some err \<Rightarrow> Some (Returns (Some (GetResponse []), Some err))
               | None \<Rightarrow> Some (Returns (Get_reply env address key location))))"

text \<open>
  \<^verbatim>\<open>func (self *Server) GetNode(ctx, in) (*db.Node, error)\<close>. The verb \<^verbatim>\<open>%x\<close> prints the
  location in lower-case hexadecimal without leading zeros.
\<close>

definition hex_digit :: "nat \<Rightarrow> char" where
  "hex_digit d = ''0123456789abcdef'' ! d"

fun hex :: "nat \<Rightarrow> string" where
  "hex n = (if n < 16 then [hex_digit n] else hex (n div 16) @ [hex_digit (n mod 16)])"

declare hex.simps [simp del]

definition Server_GetNode ::
  "Env \<Rightarrow> Server \<Rightarrow> Store \<Rightarrow> u64 \<Rightarrow> (Node option \<times> error option) outcome" where
  "Server_GetNode env self store location =
     (let address = Locate env (KeyHash env location)
      in if address = Self self
         then then_do (Store_GetNode store location) (\<lambda>node.
           case node of
             None \<Rightarrow>
               Returns (Some zero_Node,
                        Some (Error (''Location '' @ hex (unat location) @ '' not found'')))
           | Some p \<Rightarrow>
               let node = Nodes store ! p
               in Returns (Some \<lparr>Location = Location node, Dep = Dep node,
                                 Children = Children node, Key = Key node, Value = Value node\<rparr>,
                           None))
         else (case Dial env address of
                 Some err \<Rightarrow> Returns (Some zero_Node, Some err)
               | None \<Rightarrow> Returns (GetNode_reply env address location)))"

text \<open>\<^verbatim>\<open>func (self *Server) SetIndexingLock(ctx, in) (*db.SetIndexingLockResponse, error)\<close>.\<close>

definition Server_SetIndexingLock ::
  "'a Service_scheme \<Rightarrow> bool \<Rightarrow> 'a Service_scheme \<times> SetIndexingLockResponse option \<times> error option" where
  "Server_SetIndexingLock indexingService lock =
     (if lock
      then (if \<not> Lock indexingService
            then (indexingService\<lparr>Lock := True\<rparr>, Some (SetIndexingLockResponse True), None)
            else (indexingService, Some (SetIndexingLockResponse False), None))
      else (indexingService\<lparr>Lock := False\<rparr>, Some (SetIndexingLockResponse True), None))"


subsection \<open>splitRange\<close>

text \<open>
  Line 294: \<^verbatim>\<open>mid := uint32((uint64(left) + uint64(right)) / 2)\<close>. Both bounds are widened
  to 64 bits, added and halved there, and the quotient is cut to 32 bits.
\<close>

definition splitRange_mid :: "u32 \<Rightarrow> u32 \<Rightarrow> u32" where
  "splitRange_mid left right = ucast (((ucast left :: u64) + (ucast right :: u64)) div 2)"

text \<open>
  Lines 296 to 302: the hash of every node that is neither at index 0 nor has an empty
  key, in slot order. \<open>i\<close> is the index of the loop, \<open>keys\<close> the slice so far.
\<close>

fun splitRange_keys :: "(u64 \<Rightarrow> u32) \<Rightarrow> nat \<Rightarrow> Node list \<Rightarrow> u32 list \<Rightarrow> u32 list" where
  "splitRange_keys keyHash i [] keys = keys"
| "splitRange_keys keyHash i (node # nodes) keys =
     (if i = 0 \<or> Key node = [] then splitRange_keys keyHash (i + 1) nodes keys
      else splitRange_keys keyHash (i + 1) nodes (keys @ [keyHash (Location node)]))"

text \<open>Lines 304 to 312: the two counters \<^verbatim>\<open>le\<close> and \<^verbatim>\<open>greater\<close> (here \<open>greater'\<close>).\<close>

fun splitRange_count :: "u32 \<Rightarrow> u32 list \<Rightarrow> int \<times> int \<Rightarrow> int \<times> int" where
  "splitRange_count mid [] (le, greater') = (le, greater')"
| "splitRange_count mid (key # keys) (le, greater') =
     (if key > mid then splitRange_count mid keys (le, greater' + 1)
      else if key \<le> mid then splitRange_count mid keys (le + 1, greater')
      else splitRange_count mid keys (le, greater'))"

text \<open>
  Lines 322 to 337 and 341 to 356, the same loop with the test \<^verbatim>\<open>keys[i] <= mid\<close> or
  \<^verbatim>\<open>keys[i] > mid\<close> (the argument \<open>moves\<close>): every node with a non-empty key takes the
  next entry of \<^verbatim>\<open>keys\<close>, and a copy of it is appended when the test holds. This loop
  does not skip index 0. Reading \<^verbatim>\<open>keys[i]\<close> past the end panics.
\<close>

fun splitRange_results ::
  "(u32 \<Rightarrow> bool) \<Rightarrow> u32 list \<Rightarrow> nat \<Rightarrow> Node list \<Rightarrow> Node list \<Rightarrow> Node list outcome" where
  "splitRange_results moves keys i [] results = Returns results"
| "splitRange_results moves keys i (node # nodes) results =
     (if Key node = [] then splitRange_results moves keys i nodes results
      else if i < length keys
      then (if moves (keys ! i)
            then splitRange_results moves keys (i + 1) nodes
                   (results @ [\<lparr>Location = Location node, Dep = Dep node,
                                 Children = Children node, Key = Key node, Value = Value node\<rparr>])
            else splitRange_results moves keys (i + 1) nodes results)
      else Panics IndexOutOfRange)"

text \<open>
  Lines 294 to 359 and the request of lines 390 to 396: the nodes to migrate, and the
  split request with the two servers. \<open>self\<close> is \<^verbatim>\<open>s.Self\<close>, \<open>server\<close> the chosen peer.
\<close>

definition splitRange_select ::
  "(u64 \<Rightarrow> u32) \<Rightarrow> string \<Rightarrow> string \<Rightarrow> u32 \<Rightarrow> u32 \<Rightarrow> Node list \<Rightarrow> (Node list \<times> SplitRequest) outcome" where
  "splitRange_select keyHash self server left right nodes =
     (let mid = splitRange_mid left right;
          keys = splitRange_keys keyHash 0 nodes [];
          (le, greater') = splitRange_count mid keys (0, 0)
      in if greater' \<ge> le
         then then_do (splitRange_results (\<lambda>key. key \<le> mid) keys 0 nodes []) (\<lambda>results.
                Returns (results,
                  \<lparr>Left = left, Right = right, Mid = mid, LeftServer = server, RightServer = self\<rparr>))
         else then_do (splitRange_results (\<lambda>key. key > mid) keys 0 nodes []) (\<lambda>results.
                Returns (results,
                  \<lparr>Left = left, Right = right, Mid = mid, LeftServer = self, RightServer = server\<rparr>)))"

text \<open>
  \<^verbatim>\<open>func (s *Server) splitRange()\<close>. \<open>pick\<close> is the draw of \<^verbatim>\<open>rand.Intn(number)\<close>, a number
  below \<open>number\<close>. An error of \<^verbatim>\<open>grpc.Dial\<close> or of the lock request goes to \<^verbatim>\<open>log.Fatalln\<close>.
\<close>

definition splitRange :: "Env \<Rightarrow> nat \<Rightarrow> Server \<Rightarrow> Store \<Rightarrow> (Server \<times> Store) outcome" where
  "splitRange env pick s store =
     (let (left, right) = Range env (Self s)
      in if left = right then Returns (s, store)
         else let number = length (AvailableServers s)
         in if number = 0 then Returns (s, store)
         else let server = AvailableServers s ! (pick mod number)
         in (case Dial env server of
               Some err \<Rightarrow> Exits
             | None \<Rightarrow>
                 (case SetIndexingLock_reply env server True of
                    (resp, Some err) \<Rightarrow> Exits
                  | (None, None) \<Rightarrow> Panics NilDereference
                  | (Some resp, None) \<Rightarrow>
                      if \<not> Success resp then Returns (s, store)
                      else then_do
                        (splitRange_select (KeyHash env) (Self s) server left right (Nodes store))
                        (\<lambda>(results, request). migrate env s store server results request))))"

subsection \<open>Set\<close>

text \<open>
  \<^verbatim>\<open>func (s *Server) Set(ctx, in) (result *db.SetResponse, err error)\<close>. \<open>r\<close> and \<open>pick\<close>
  are the two random draws. \<open>finish\<close> is the end of the owning path: the size check of
  line 203 with the split, then \<^verbatim>\<open>result = &db.SetResponse{Location: loc}\<close> and the
  \<^verbatim>\<open>return result, nil\<close> of line 236. On the forwarding path the error of the remote
  call is assigned at line 221 and line 236 returns \<^verbatim>\<open>nil\<close> in its place. The reply of
  \<^verbatim>\<open>s.AddChild\<close> at line 161 loses its error; \<^verbatim>\<open>parent.Children\<close> on a nil reply panics.
  The read lock and the debug prints are left out.
\<close>

definition Server_Set ::
  "Env \<Rightarrow> u32 \<Rightarrow> nat \<Rightarrow> Server \<Rightarrow> Store \<Rightarrow> string \<Rightarrow> string \<Rightarrow> u64
     \<Rightarrow> (Server \<times> Store \<times> SetResponse option \<times> error option) outcome" where
  "Server_Set env r pick s store key val dep =
     (let address = LocateKey env key;
          check_split = (\<lambda>store'.
            if Size store' > Threshold s \<and> length (AvailableServers s) > 0
            then splitRange env pick s store'
            else Returns (s, store'))
      in if address = Self s
         then then_do (Store_Set (Hash32 env) r store key val dep) (\<lambda>(loc, store1).
           let finish = (\<lambda>store'. then_do (check_split store') (\<lambda>(s', store'').
                 Returns (s', store'', Some (SetResponse loc), None)))
           in if dep \<noteq> 0
              then then_do (Server_AddChild env s store1 dep loc) (\<lambda>(store2, parent, _).
                case parent of
                  None \<Rightarrow> Panics NilDereference
                | Some parent \<Rightarrow>
                    if length (Children parent) > 1
                    then (let merge = (case mergeFunction s dep of
                                         Some f \<Rightarrow> f
                                       | None \<Rightarrow> globalMergeFunction s)
                          in if length merge > 0
                             then (case Unmarshal env (CallAction env merge (Marshal env parent)) of
                                     Inl err \<Rightarrow>
                                       Returns (s, store2, Some (SetResponse loc), Some err)
                                   | Inr children \<Rightarrow>
                                       then_do (redistribute env s store2 parent children) finish)
                             else finish store2)
                    else finish store2)
              else finish store1)
         else (case Dial env address of
                 Some err \<Rightarrow> Returns (s, store, Some (SetResponse 0), Some err)
               | None \<Rightarrow>
                   (let (result, err) = Set_reply env address key val dep
                    in then_do (check_split store) (\<lambda>(s', store').
                         Returns (s', store', result, None)))))"


section \<open>Notions the properties are stated with\<close>

text \<open>A node is valid when its key is not empty; the number of valid nodes of a store.\<close>

definition valid :: "Node \<Rightarrow> bool" where
  "valid n \<longleftrightarrow> Key n \<noteq> []"

definition valid_count :: "Store \<Rightarrow> int" where
  "valid_count s = int (length (filter valid (Nodes s)))"

definition size_ok :: "Store \<Rightarrow> bool" where
  "size_ok s \<longleftrightarrow> Size s = valid_count s"

text \<open>The slot that \<^verbatim>\<open>RemoveNode\<close> reaches first: the number of slots before it.\<close>

definition first_slot :: "u64 \<Rightarrow> Node list \<Rightarrow> nat" where
  "first_slot location nodes = length (takeWhile (\<lambda>n. Location n \<noteq> location) nodes)"

text \<open>The node a location resolves to, when \<^verbatim>\<open>GetNode\<close> returns a pointer for it.\<close>

definition node_at :: "Store \<Rightarrow> u64 \<Rightarrow> Node option" where
  "node_at s loc =
     (case Store_GetNode s loc of
        Returns (Some p) \<Rightarrow> Some (Nodes s ! p)
      | _ \<Rightarrow> None)"

text \<open>
  \<open>dep_path s loc p\<close>: \<open>p\<close> is the list of nodes met from \<open>loc\<close> along the deps, each
  location resolving to the next node. Only the last node of a path may have the
  root's dep, since nothing is looked up behind that.
\<close>

fun dep_path :: "Store \<Rightarrow> u64 \<Rightarrow> Node list \<Rightarrow> bool" where
  "dep_path s loc [] = False"
| "dep_path s loc [n] = (node_at s loc = Some n)"
| "dep_path s loc (n # m # ns) =
     (node_at s loc = Some n \<and> Dep n \<noteq> MaxUint64 \<and> dep_path s (Dep n) (m # ns))"

text \<open>The error of \<^verbatim>\<open>fmt.Errorf("Key %s not found", key)\<close>.\<close>

definition NotFound :: "string \<Rightarrow> error" where
  "NotFound key = Error (''Key '' @ key @ '' not found'')"

text \<open>The value of the first node of a path that has the key, or the error.\<close>

definition first_match :: "string \<Rightarrow> Node list \<Rightarrow> string \<times> error option" where
  "first_match key p =
     (case find (\<lambda>n. Key n = key) p of
        Some n \<Rightarrow> (Value n, None)
      | None \<Rightarrow> ([], Some (NotFound key)))"

text \<open>Index 0 of the slice holds no valid node (it holds the root, or nothing).\<close>

definition slot0_invalid :: "Node list \<Rightarrow> bool" where
  "slot0_invalid nodes = (case nodes of [] \<Rightarrow> True | n # _ \<Rightarrow> Key n = [])"

text \<open>
  The stores a server can be in: the one \<^verbatim>\<open>Init\<close> makes of the zero value, and what the
  operations that write the store make of such a store. The last rule is the write
  \<^verbatim>\<open>node.Children = nil\<close> that \<^verbatim>\<open>RemoveChildren\<close> does through the pointer.
\<close>

inductive reachable :: "Store \<Rightarrow> bool" where
  reachable_Init: "reachable (Store_Init zero_Store)"
| reachable_newNode:
    "reachable s \<Longrightarrow> newNode s location dep key val = Returns s' \<Longrightarrow> reachable s'"
| reachable_RemoveNode: "reachable s \<Longrightarrow> reachable (RemoveNode s location)"
| reachable_AddChild:
    "reachable s \<Longrightarrow> Store_AddChild s location child = Returns (p, s') \<Longrightarrow> reachable s'"
| reachable_clear_Children:
    "reachable s \<Longrightarrow> p < length (Nodes s) \<Longrightarrow>
     reachable (s\<lparr>Nodes := (Nodes s)[p := (Nodes s ! p)\<lparr>Children := []\<rparr>]\<rparr>)"

section \<open>Example states\<close>

text \<open>
  A hash for the examples, and \<^verbatim>\<open>utils.KeyHash\<close> as the spec describes it, the high 32
  bits of a location.
\<close>

definition example_hash :: "string \<Rightarrow> u32" where
  "example_hash key = of_nat (length key)"

definition high32 :: "u64 \<Rightarrow> u32" where
  "high32 location = ucast (drop_bit 32 location)"

text \<open>
  The store after \<^verbatim>\<open>Init\<close>, \<^verbatim>\<open>Set("a", "1", 0)\<close> with the draw 5 and \<^verbatim>\<open>Set("b", "2", L1)\<close>
  with the draw 9, the second registered as a child of the first.
\<close>

definition L1 :: u64 where
  "L1 = 4294967301"

definition L2 :: u64 where
  "L2 = 4294967305"

definition node_a :: Node where
  "node_a = \<lparr>Location = L1, Dep = 0, Children = [L2], Key = ''a'', Value = ''1''\<rparr>"

definition node_b :: Node where
  "node_b = \<lparr>Location = L2, Dep = L1, Children = [], Key = ''b'', Value = ''2''\<rparr>"

definition store_ab :: Store where
  "store_ab = \<lparr>Nodes = [root_Node, node_a, node_b],
               MemLocation = Some [0 \<mapsto> 0, L1 \<mapsto> 1, L2 \<mapsto> 2],
               Size = 2\<rparr>"

text \<open>
  The store after \<^verbatim>\<open>Init\<close> and \<^verbatim>\<open>Set("", "v", 0)\<close> with the draw 5: a node with the
  empty key and a value of its own, above the root.
\<close>

definition node_e :: Node where
  "node_e = \<lparr>Location = 5, Dep = 0, Children = [], Key = [], Value = ''v''\<rparr>"

definition store_e :: Store where
  "store_e = \<lparr>Nodes = [root_Node, node_e],
              MemLocation = Some [0 \<mapsto> 0, 5 \<mapsto> 1],
              Size = 1\<rparr>"

text \<open>A store whose only node names a dep that no server has stored here.\<close>

definition node_x :: Node where
  "node_x = \<lparr>Location = L1, Dep = 77, Children = [], Key = ''x'', Value = ''1''\<rparr>"

definition store_dangling :: Store where
  "store_dangling = \<lparr>Nodes = [root_Node, node_x],
                     MemLocation = Some [0 \<mapsto> 0, L1 \<mapsto> 1],
                     Size = 1\<rparr>"

text \<open>
  Slots for a split: the root, three valid nodes and a removed one. The high halves of
  the locations are 1, \<open>3 * 2^30\<close> and \<open>13 * 2^28\<close>.
\<close>

definition L3 :: u64 where
  "L3 = 13835058055282163713"

definition L4 :: u64 where
  "L4 = 14987979559889010690"

definition node_c :: Node where
  "node_c = \<lparr>Location = L3, Dep = L1, Children = [], Key = ''c'', Value = ''3''\<rparr>"

definition node_d :: Node where
  "node_d = \<lparr>Location = L4, Dep = L1, Children = [], Key = ''d'', Value = ''4''\<rparr>"

definition split_nodes :: "Node list" where
  "split_nodes = [root_Node, node_a, node_c, zero_Node, node_d]"

text \<open>
  A third write, \<^verbatim>\<open>Set("c", "3", L1)\<close> with the draw 13: the store after the store's
  \<^verbatim>\<open>Set\<close>, and after the new node has become the second child of its parent.
\<close>

definition L5 :: u64 where
  "L5 = 4294967309"

definition node_fork :: Node where
  "node_fork = \<lparr>Location = L5, Dep = L1, Children = [], Key = ''c'', Value = ''3''\<rparr>"

definition store_fork1 :: Store where
  "store_fork1 = \<lparr>Nodes = [root_Node, node_a, node_b, node_fork],
                   MemLocation = Some [0 \<mapsto> 0, L1 \<mapsto> 1, L2 \<mapsto> 2, L5 \<mapsto> 3],
                   Size = 3\<rparr>"

definition store_fork2 :: Store where
  "store_fork2 = \<lparr>Nodes = [root_Node, node_a\<lparr>Children := [L2, L5]\<rparr>, node_b, node_fork],
                   MemLocation = Some [0 \<mapsto> 0, L1 \<mapsto> 1, L2 \<mapsto> 2, L5 \<mapsto> 3],
                   Size = 3\<rparr>"

text \<open>
  Server A of two, and an environment in which every key and location belongs to
  \<open>owner\<close>, the peers answer every RPC with an error, and the merge function's answer
  does not decode.
\<close>

definition server_A :: Server where
  "server_A = \<lparr>Servers = [''A'', ''B''], AvailableServers = [''B''], Self = ''A'',
               Initial = ''A'', Threshold = 100, mergeFunction = Map.empty,
               globalMergeFunction = ''merge''\<rparr>"

definition example_env :: "string \<Rightarrow> Env" where
  "example_env owner =
     \<lparr>Locate = (\<lambda>_. owner), LocateKey = (\<lambda>_. owner), Range = (\<lambda>_. (0, - 1)),
      KeyHash = high32, Hash32 = example_hash, Dial = (\<lambda>_. None),
      Marshal = (\<lambda>_. []), CallAction = (\<lambda>_ _. ''not json''),
      Unmarshal = (\<lambda>_. Inl (Error ''invalid character'')),
      Get_reply = (\<lambda>_ _ _. (None, Some (Error ''unavailable''))),
      Set_reply = (\<lambda>_ _ _ _. (None, Some (Error ''unavailable''))),
      GetNode_reply = (\<lambda>_ _. (None, Some (Error ''unavailable''))),
      AddChild_reply = (\<lambda>_ _ _. (None, Some (Error ''unavailable''))),
      RemoveChildren_reply = (\<lambda>_ _. (None, Some (Error ''unavailable''))),
      SetIndexingLock_reply = (\<lambda>_ _. (None, Some (Error ''unavailable''))),
      redistribute = (\<lambda>_ store _ _. Returns store),
      migrate = (\<lambda>s store _ _ _. Returns (s, store))\<rparr>"


section \<open>Basic facts\<close>

lemma Node_copy [simp]:
  "\<lparr>Location = Location n, Dep = Dep n, Children = Children n, Key = Key n, Value = Value n\<rparr>
     = (n :: Node)"
  by (cases n) simp

lemma then_do_Returns [simp]: "then_do (Returns x) f = f x"
  by (simp add: then_do_def)

lemma then_do_eq_Returns:
  "then_do m f = Returns y \<longleftrightarrow> (\<exists>x. m = Returns x \<and> f x = Returns y)"
  by (cases m) (simp_all add: then_do_def)

section \<open>The location that Set returns\<close>

lemma new_location_OR:
  "new_location hash32 r key = push_bit 32 (ucast (hash32 key)) OR ucast r"
  unfolding new_location_def
  by (subst add.commute, rule disjunctive_add) (auto simp: bit_simps dest: bit_imp_le_length)

lemma new_location_high:
  "drop_bit 32 (new_location hash32 r key) = ucast (hash32 key)"
  unfolding new_location_OR
  by (rule bit_word_eqI) (auto simp: bit_simps dest: bit_imp_le_length)

lemma Store_Set_Returns:
  "Store_Set hash32 r s key v dep = Returns (loc, s') \<Longrightarrow>
   loc = new_location hash32 r key \<and> newNode s loc dep key v = Returns s'"
  by (auto simp: Store_Set_def Let_def then_do_eq_Returns)

lemma Store_Set_example:
  "Store_Set example_hash 5 (Store_Init zero_Store) ''a'' ''1'' 0 =
     Returns (L1, \<lparr>Nodes = [root_Node, node_a\<lparr>Children := []\<rparr>],
                   MemLocation = Some [0 \<mapsto> 0, L1 \<mapsto> 1], Size = 1\<rparr>)"
  by (simp add: Store_Set_def Store_Init_def zero_Store_def newNode_def new_location_def
      example_hash_def L1_def node_a_def)

text \<open>
  C2. Whatever the key and the 32-bit draw, a location that the store's \<^verbatim>\<open>Set\<close> returns
  has the key's hash as its high 32 bits (\<^verbatim>\<open>location >> 32 == hash32(key)\<close>), and the sum
  that the code computes is the bitwise or of the shifted hash and the draw: the draw
  is below \<open>2^32\<close> and carries nothing into the high half.
\<close>

theorem Set_location_high_bits:
  assumes "Store_Set hash32 r s key v dep = Returns (location, s')"
  shows "drop_bit 32 location = ucast (hash32 key) \<and>
         location = push_bit 32 (ucast (hash32 key)) OR ucast r"
  using Store_Set_Returns [OF assms] new_location_high [of hash32 r key]
    new_location_OR [of hash32 r key]
  by simp

theorem Set_location_high_bits_witness:
  "Store_Set example_hash 5 (Store_Init zero_Store) ''a'' ''1'' 0 =
     Returns (L1, \<lparr>Nodes = [root_Node, node_a\<lparr>Children := []\<rparr>],
                   MemLocation = Some [0 \<mapsto> 0, L1 \<mapsto> 1], Size = 1\<rparr>) \<and>
   drop_bit 32 L1 = (ucast (example_hash ''a'') :: u64) \<and>
   L1 = push_bit 32 (ucast (example_hash ''a'')) OR ucast (5 :: u32)"
  using Set_location_high_bits [OF Store_Set_example] Store_Set_example by simp

section \<open>The indexing lock\<close>

text \<open>
  C4. \<^verbatim>\<open>SetIndexingLock(true)\<close> on a server whose lock is held answers
  \<^verbatim>\<open>success=false\<close> and leaves the lock held; on a server whose lock is free it takes
  the lock and answers \<^verbatim>\<open>success=true\<close>; \<^verbatim>\<open>SetIndexingLock(false)\<close> always clears the
  lock and answers \<^verbatim>\<open>success=true\<close>. No call returns an error.
\<close>

theorem SetIndexingLock_cases:
  "Server_SetIndexingLock (svc\<lparr>Lock := True\<rparr>) True =
     (svc\<lparr>Lock := True\<rparr>, Some (SetIndexingLockResponse False), None) \<and>
   Server_SetIndexingLock (svc\<lparr>Lock := False\<rparr>) True =
     (svc\<lparr>Lock := True\<rparr>, Some (SetIndexingLockResponse True), None) \<and>
   Server_SetIndexingLock svc False =
     (svc\<lparr>Lock := False\<rparr>, Some (SetIndexingLockResponse True), None)"
  by (simp add: Server_SetIndexingLock_def)

section \<open>The midpoint of a split\<close>

lemma unat_ucast_32_64: "unat (ucast (w :: u32) :: u64) = unat w"
proof -
  have "unat w < 2 ^ 64"
    using unsigned_less [of w, where ?'a = nat] by simp
  then show ?thesis
    by (simp add: unsigned_ucast_eq take_bit_nat_eq_self)
qed

lemma splitRange_mid_unat:
  "unat (splitRange_mid left right) = (unat left + unat right) div 2"
proof -
  have l: "unat left < 2 ^ 32"
    using unsigned_less [of left, where ?'a = nat] by simp
  have r: "unat right < 2 ^ 32"
    using unsigned_less [of right, where ?'a = nat] by simp
  have s: "unat ((ucast left :: u64) + ucast right) = unat left + unat right"
    using l r by (simp add: unat_word_ariths unat_ucast_32_64)
  have d: "unat (((ucast left :: u64) + ucast right) div 2) = (unat left + unat right) div 2"
    by (simp add: unat_div s)
  have "(unat left + unat right) div 2 < 2 ^ 32"
    using l r by simp
  then show ?thesis
    unfolding splitRange_mid_def
    by (simp add: unsigned_ucast_eq d take_bit_nat_eq_self)
qed

text \<open>
  C6. \<^verbatim>\<open>splitRange\<close> computes \<^verbatim>\<open>mid\<close> as the floor of \<open>(left + right) / 2\<close>: the sum is
  taken in 64 bits, where it cannot wrap, and only the quotient is cut to 32 bits. For
  the full initial range, \<open>left = 0\<close> and \<open>right = 2^32 - 1\<close>, the midpoint is
  \<open>2^31 - 1\<close>.
\<close>

theorem splitRange_mid_is_floor_of_half_sum:
  "unat (splitRange_mid left right) = (unat left + unat right) div 2 \<and>
   splitRange_mid 0 (2 ^ 32 - 1) = 2 ^ 31 - 1"
proof -
  have "unat (splitRange_mid 0 (2 ^ 32 - 1)) = unat (2 ^ 31 - 1 :: u32)"
    by (simp add: splitRange_mid_unat)
  then have "splitRange_mid 0 (2 ^ 32 - 1) = 2 ^ 31 - 1"
    by (simp only: word_unat_eq_iff)
  then show ?thesis
    using splitRange_mid_unat [of left right] by simp
qed

section \<open>Get along a path of deps\<close>

lemma node_at_Some:
  "node_at s loc = Some n \<Longrightarrow> \<exists>p. Store_GetNode s loc = Returns (Some p) \<and> Nodes s ! p = n"
  by (auto simp: node_at_def split: outcome.splits option.splits)

lemma Store_Get_step:
  assumes "node_at s loc = Some n"
  shows "Store_Get s k loc =
     (if Key n = k then Some (Returns (Value n, None))
      else if Dep n = MaxUint64 then Some (Returns ([], Some (NotFound k)))
      else Store_Get s k (Dep n))"
proof -
  from node_at_Some [OF assms] obtain p where
    p: "Store_GetNode s loc = Returns (Some p)" "Nodes s ! p = n" by blast
  have "Store_Get s k loc = Get_loop s k (Some p)"
    by (simp add: Store_Get_def p(1))
  also have "\<dots> = (if Key n = k then Some (Returns (Value n, None))
      else if Dep n = MaxUint64 then Some (Returns ([], Some (NotFound k)))
      else Store_Get s k (Dep n))"
    by (subst Get_loop.simps) (simp add: p(2) NotFound_def Store_Get_def split: outcome.splits)
  finally show ?thesis .
qed

lemma Store_Get_dep_path:
  "dep_path s loc p \<Longrightarrow> Dep (last p) = MaxUint64 \<or> (\<exists>n\<in>set p. Key n = k) \<Longrightarrow>
   Store_Get s k loc = Some (Returns (first_match k p))"
proof (induction s loc p rule: dep_path.induct)
  case (1 s loc)
  then show ?case by simp
next
  case (2 s loc n)
  then show ?case by (auto simp: Store_Get_step first_match_def)
next
  case (3 s loc n m ns)
  from "3.prems" have n: "node_at s loc = Some n" and d: "Dep n \<noteq> MaxUint64"
    and rest: "dep_path s (Dep n) (m # ns)" by simp_all
  show ?case
  proof (cases "Key n = k")
    case True
    then show ?thesis by (simp add: Store_Get_step [OF n] first_match_def)
  next
    case False
    with "3.prems"(2) have "Dep (last (m # ns)) = MaxUint64 \<or> (\<exists>n\<in>set (m # ns). Key n = k)"
      by auto
    from "3.IH" [OF rest this] False d show ?thesis
      by (simp add: Store_Get_step [OF n] first_match_def)
  qed
qed

lemma first_match_found:
  "Key n = k \<Longrightarrow> \<forall>m\<in>set ns. Key m \<noteq> k \<Longrightarrow> first_match k (ns @ n # ms) = (Value n, None)"
  by (induction ns) (auto simp: first_match_def)

lemma first_match_none:
  "\<forall>n\<in>set p. Key n \<noteq> k \<Longrightarrow> first_match k p = ([], Some (NotFound k))"
  by (induction p) (auto simp: first_match_def)

text \<open>
  C1. When the start location and every dep on the walked path resolve to a stored
  node (\<open>p\<close> is that path, ending at a node with the root's dep unless a node on it has
  the key), \<^verbatim>\<open>Get(k, loc)\<close> returns: its result is the value of the first node on the
  path, the most recent one, whose key is \<open>k\<close>, with no error; and it is the error
  \<^verbatim>\<open>Key k not found\<close> when the path reaches the root's dep \<open>2^64 - 1\<close> with no node of
  that key.
\<close>

theorem Get_returns_first_match_on_path:
  assumes "dep_path s loc p"
    and "Dep (last p) = MaxUint64 \<or> (\<exists>n\<in>set p. Key n = k)"
  shows "Store_Get s k loc = Some (Returns (first_match k p)) \<and>
    (\<forall>ns n ms. p = ns @ n # ms \<and> Key n = k \<and> (\<forall>m\<in>set ns. Key m \<noteq> k) \<longrightarrow>
       Store_Get s k loc = Some (Returns (Value n, None))) \<and>
    ((\<forall>n\<in>set p. Key n \<noteq> k) \<longrightarrow>
       Store_Get s k loc = Some (Returns ([], Some (Error (''Key '' @ k @ '' not found'')))))"
proof -
  have eq: "Store_Get s k loc = Some (Returns (first_match k p))"
    by (rule Store_Get_dep_path [OF assms])
  have "Store_Get s k loc = Some (Returns (Value n, None))"
    if "p = ns @ n # ms" "Key n = k" "\<forall>m\<in>set ns. Key m \<noteq> k" for ns n ms
    using that eq first_match_found [of n k ns ms] by simp
  moreover have "Store_Get s k loc = Some (Returns ([], Some (Error (''Key '' @ k @ '' not found''))))"
    if "\<forall>n\<in>set p. Key n \<noteq> k"
    using that eq first_match_none [of p k] by (simp add: NotFound_def)
  ultimately show ?thesis using eq by blast
qed

lemma store_ab_path: "dep_path store_ab L2 [node_b, node_a, root_Node]"
  by (simp add: node_at_def Store_GetNode_def MemLocation_lookup_def store_ab_def L1_def L2_def
      node_a_def node_b_def root_Node_def MaxUint64_def)

lemma store_ab_path_end: "Dep (last [node_b, node_a, root_Node]) = MaxUint64"
  by (simp add: root_Node_def)

theorem Get_returns_first_match_on_path_witness:
  "dep_path store_ab L2 [node_b, node_a, root_Node] \<and>
   Dep (last [node_b, node_a, root_Node]) = MaxUint64 \<and>
   Store_Get store_ab ''a'' L2 = Some (Returns (''1'', None)) \<and>
   Store_Get store_ab ''c'' L2 = Some (Returns ([], Some (Error ''Key c not found'')))"
proof -
  have e: "Dep (last [node_b, node_a, root_Node]) = MaxUint64 \<or>
      (\<exists>n\<in>set [node_b, node_a, root_Node]. Key n = k)" for k
    by (simp add: root_Node_def)
  have a: "Store_Get store_ab ''a'' L2 = Some (Returns (''1'', None))"
    using Get_returns_first_match_on_path [OF store_ab_path e, of "''a''"]
    by (simp add: first_match_def node_a_def node_b_def)
  have c: "Store_Get store_ab ''c'' L2 = Some (Returns ([], Some (Error ''Key c not found'')))"
    using Get_returns_first_match_on_path [OF store_ab_path e, of "''c''"]
    by (simp add: first_match_def node_a_def node_b_def root_Node_def NotFound_def)
  show ?thesis using store_ab_path store_ab_path_end a c by simp
qed

section \<open>Get from a location that does not resolve\<close>

lemma Store_GetNode_unknown:
  "MemLocation_lookup s loc = None \<Longrightarrow> Store_GetNode s loc = Returns None"
  by (simp add: Store_GetNode_def)

lemma Store_Get_unknown:
  "MemLocation_lookup s loc = None \<Longrightarrow> Store_Get s k loc = Some (Panics NilDereference)"
  by (simp add: Store_Get_def Store_GetNode_unknown Get_loop.simps [of s k None])

lemma Store_Get_dangling:
  "dep_path s loc p \<Longrightarrow> \<forall>n\<in>set p. Key n \<noteq> k \<Longrightarrow> Dep (last p) \<noteq> MaxUint64 \<Longrightarrow>
   MemLocation_lookup s (Dep (last p)) = None \<Longrightarrow>
   Store_Get s k loc = Some (Panics NilDereference)"
proof (induction s loc p rule: dep_path.induct)
  case (1 s loc)
  then show ?case by simp
next
  case (2 s loc n)
  then show ?case by (simp add: Store_Get_step [of s loc n] Store_Get_unknown)
next
  case (3 s loc n m ns)
  then show ?case by (simp add: Store_Get_step [of s loc n])
qed

text \<open>
  An error result of the loop comes from the root's dep: by induction on the unfolding
  of the loop, the pointer it started from heads a path to a node with that dep, and no
  node on the path has the key.
\<close>

lemma Get_loop_NotFound:
  assumes "Get_loop s k node = Some res"
  shows "\<forall>v e. res = Returns (v, Some e) \<longrightarrow>
    (\<exists>q. node = Some q \<and>
      (\<forall>loc. Store_GetNode s loc = Returns (Some q) \<longrightarrow>
         (\<exists>p. dep_path s loc p \<and> Dep (last p) = MaxUint64 \<and> (\<forall>n\<in>set p. Key n \<noteq> k)))
      \<and> v = [] \<and> e = NotFound k)"
  using assms
proof (induct rule: Get_loop.raw_induct [rotated 1, consumes 1, case_names step])
  case (step Get_loop' s k node res)
  note IH = step(1) and body = step(2)
  show ?case
  proof (intro allI impI)
    fix v e assume res: "res = Returns (v, Some e)"
    from body res obtain q where q: "node = Some q"
      by (cases node) auto
    let ?n = "Nodes s ! q"
    from body res q have nk: "Key ?n \<noteq> k" by (auto split: if_splits)
    show "\<exists>q. node = Some q \<and>
      (\<forall>loc. Store_GetNode s loc = Returns (Some q) \<longrightarrow>
         (\<exists>p. dep_path s loc p \<and> Dep (last p) = MaxUint64 \<and> (\<forall>n\<in>set p. Key n \<noteq> k)))
      \<and> v = [] \<and> e = NotFound k"
    proof (cases "Dep ?n = MaxUint64")
      case True
      with body res q nk have ve: "v = []" "e = NotFound k"
        by (auto simp: NotFound_def)
      have "\<exists>p. dep_path s loc p \<and> Dep (last p) = MaxUint64 \<and> (\<forall>n\<in>set p. Key n \<noteq> k)"
        if "Store_GetNode s loc = Returns (Some q)" for loc
      proof -
        from that have "dep_path s loc [?n]" by (simp add: node_at_def)
        with True nk show ?thesis by (intro exI [of _ "[?n]"]) simp
      qed
      with q ve show ?thesis by blast
    next
      case False
      from body res q nk False obtain node' where
        g: "Store_GetNode s (Dep ?n) = Returns node'" and r: "Get_loop' s k node' = Some res"
        by (auto split: outcome.splits)
      from IH [OF r] res obtain q' where q': "node' = Some q'"
        and p': "\<forall>loc. Store_GetNode s loc = Returns (Some q') \<longrightarrow>
         (\<exists>p. dep_path s loc p \<and> Dep (last p) = MaxUint64 \<and> (\<forall>n\<in>set p. Key n \<noteq> k))"
        and ve: "v = []" "e = NotFound k" by blast
      from p' g q' obtain p where p: "dep_path s (Dep ?n) p" "Dep (last p) = MaxUint64"
        "\<forall>n\<in>set p. Key n \<noteq> k" by blast
      then obtain m ms where pm: "p = m # ms" by (cases p) auto
      have "\<exists>p. dep_path s loc p \<and> Dep (last p) = MaxUint64 \<and> (\<forall>n\<in>set p. Key n \<noteq> k)"
        if "Store_GetNode s loc = Returns (Some q)" for loc
      proof -
        from that have "node_at s loc = Some ?n" by (simp add: node_at_def)
        with p pm False nk have "dep_path s loc (?n # p)" "Dep (last (?n # p)) = MaxUint64"
          "\<forall>n\<in>set (?n # p). Key n \<noteq> k" by auto
        then show ?thesis by blast
      qed
      with q ve show ?thesis by blast
    qed
  qed
qed

lemma Store_Get_NotFound:
  assumes "Store_Get s k loc = Some (Returns (v, Some e))"
  shows "MemLocation_lookup s loc \<noteq> None \<and> v = [] \<and> e = NotFound k \<and>
    (\<exists>p. dep_path s loc p \<and> Dep (last p) = MaxUint64 \<and> (\<forall>n\<in>set p. Key n \<noteq> k))"
proof -
  from assms obtain node where g: "Store_GetNode s loc = Returns node"
    and l: "Get_loop s k node = Some (Returns (v, Some e))"
    by (auto simp: Store_Get_def split: outcome.splits)
  from Get_loop_NotFound [OF l] g have
    "v = [] \<and> e = NotFound k \<and>
     (\<exists>p. dep_path s loc p \<and> Dep (last p) = MaxUint64 \<and> (\<forall>n\<in>set p. Key n \<noteq> k))"
    by blast
  moreover have "MemLocation_lookup s loc \<noteq> None"
    using assms Store_Get_unknown [of s loc k] by auto
  ultimately show ?thesis by blast
qed

text \<open>
  C9. \<^verbatim>\<open>Get\<close> is partial: for a start location with no entry in \<^verbatim>\<open>MemLocation\<close>,
  \<^verbatim>\<open>GetNode\<close> returns nil and \<^verbatim>\<open>Get\<close> dereferences it, a nil-pointer panic; likewise when
  the walk, having met no node with the key, comes to a dep with no entry. Whenever \<^verbatim>\<open>Get\<close>
  returns an error, that error is \<^verbatim>\<open>Key k not found\<close>, the start location has an entry,
  and the walk went along a path of resolving deps to a node with the root's dep
  \<open>2^64 - 1\<close>; so the error never answers an unknown start location.
\<close>

theorem Get_unknown_location_is_nil_dereference:
  "(MemLocation_lookup s loc = None \<longrightarrow>
      Store_GetNode s loc = Returns None \<and> Store_Get s k loc = Some (Panics NilDereference)) \<and>
   (dep_path s loc p \<and> (\<forall>n\<in>set p. Key n \<noteq> k) \<and> Dep (last p) \<noteq> MaxUint64 \<and>
    MemLocation_lookup s (Dep (last p)) = None \<longrightarrow>
      Store_Get s k loc = Some (Panics NilDereference)) \<and>
   (Store_Get s k loc = Some (Returns (v, Some e)) \<longrightarrow>
      MemLocation_lookup s loc \<noteq> None \<and> v = [] \<and>
      e = Error (''Key '' @ k @ '' not found'') \<and>
      (\<exists>p. dep_path s loc p \<and> Dep (last p) = MaxUint64 \<and> (\<forall>n\<in>set p. Key n \<noteq> k)))"
  using Store_GetNode_unknown [of s loc] Store_Get_unknown [of s loc k]
    Store_Get_dangling [of s loc p k] Store_Get_NotFound [of s k loc v e]
  by (simp add: NotFound_def)

lemma store_dangling_path: "dep_path store_dangling L1 [node_x]"
  by (simp add: node_at_def Store_GetNode_def MemLocation_lookup_def store_dangling_def L1_def)

lemma store_ab_Get_c:
  "Store_Get store_ab ''c'' L2 = Some (Returns ([], Some (Error ''Key c not found'')))"
  using Store_Get_dep_path [OF store_ab_path, of "''c''"]
  by (simp add: first_match_def node_a_def node_b_def root_Node_def NotFound_def)

theorem Get_unknown_location_is_nil_dereference_witness:
  "MemLocation_lookup store_ab 99 = None \<and>
   Store_GetNode store_ab 99 = Returns None \<and>
   Store_Get store_ab ''a'' 99 = Some (Panics NilDereference) \<and>
   dep_path store_dangling L1 [node_x] \<and> Key node_x \<noteq> ''a'' \<and>
   Dep (last [node_x]) \<noteq> MaxUint64 \<and>
   MemLocation_lookup store_dangling (Dep (last [node_x])) = None \<and>
   Store_Get store_dangling ''a'' L1 = Some (Panics NilDereference) \<and>
   Store_Get store_ab ''c'' L2 = Some (Returns ([], Some (Error ''Key c not found''))) \<and>
   MemLocation_lookup store_ab L2 \<noteq> None"
proof -
  have u: "MemLocation_lookup store_ab 99 = None"
    by (simp add: MemLocation_lookup_def store_ab_def L1_def L2_def)
  have d: "Key node_x \<noteq> ''a''" "Dep (last [node_x]) \<noteq> MaxUint64"
    "MemLocation_lookup store_dangling (Dep (last [node_x])) = None"
    by (simp_all add: node_x_def MaxUint64_def MemLocation_lookup_def store_dangling_def L1_def)
  from u have "Store_GetNode store_ab 99 = Returns None"
    "Store_Get store_ab ''a'' 99 = Some (Panics NilDereference)"
    using Get_unknown_location_is_nil_dereference [of store_ab 99 "''a''"] by simp_all
  moreover have "Store_Get store_dangling ''a'' L1 = Some (Panics NilDereference)"
    using Get_unknown_location_is_nil_dereference [of store_dangling L1 "''a''" "[node_x]"]
      store_dangling_path d by simp
  moreover have "MemLocation_lookup store_ab L2 \<noteq> None"
    using Get_unknown_location_is_nil_dereference
      [of store_ab L2 "''c''" "[]" "[]" "Error ''Key c not found''"] store_ab_Get_c
    by simp
  ultimately show ?thesis using u d store_dangling_path store_ab_Get_c by simp
qed

section \<open>Get with the empty key\<close>

lemma first_match_last:
  "p \<noteq> [] \<Longrightarrow> Key (last p) = k \<Longrightarrow> \<forall>n\<in>set (butlast p). Key n \<noteq> k \<Longrightarrow>
   first_match k p = (Value (last p), None)"
  using first_match_found [of "last p" k "butlast p" "[]"] by simp

lemma first_match_unique_split:
  "p = ns @ n # ms \<Longrightarrow> Key n = k \<Longrightarrow> \<forall>m\<in>set ns. Key m \<noteq> k \<Longrightarrow>
   first_match k p = (Value n, None)"
  using first_match_found [of n k ns ms] by simp

lemma first_key_split:
  "\<exists>n\<in>set p. Key n = k \<Longrightarrow>
   \<exists>ns n ms. p = ns @ n # ms \<and> Key n = k \<and> (\<forall>m\<in>set ns. Key m \<noteq> k)"
  using split_list_first_prop [of p "\<lambda>n. Key n = k"] by blast

text \<open>
  C10. For a start location whose deps resolve along a path to the root (a node with
  the empty key, the empty value and the dep \<open>2^64 - 1\<close>), \<^verbatim>\<open>Get\<close> with the empty key
  never returns the error: the key is compared at every node before the dep is
  tested, the root included, so the walk matches at or before the root. What it returns
  is the value of the first node on the path whose key is empty, with no error: such a
  node exists, and whichever node it is, its value is the result. That value is the
  root's empty string when no node before the root has the empty key.
\<close>

theorem Get_empty_key_returns_first_empty_key_node:
  assumes "dep_path s loc p"
    and "Key (last p) = [] \<and> Value (last p) = [] \<and> Dep (last p) = MaxUint64"
  shows "Store_Get s [] loc = Some (Returns (first_match [] p)) \<and>
    (\<exists>ns n ms. p = ns @ n # ms \<and> Key n = [] \<and> (\<forall>m\<in>set ns. Key m \<noteq> [])) \<and>
    (\<forall>ns n ms. p = ns @ n # ms \<and> Key n = [] \<and> (\<forall>m\<in>set ns. Key m \<noteq> []) \<longrightarrow>
       Store_Get s [] loc = Some (Returns (Value n, None))) \<and>
    ((\<forall>n\<in>set (butlast p). Key n \<noteq> []) \<longrightarrow> Store_Get s [] loc = Some (Returns ([], None))) \<and>
    (\<forall>e v. Store_Get s [] loc \<noteq> Some (Returns (v, Some e)))"
proof -
  from assms(1) have ne: "p \<noteq> []" by (cases p) auto
  with assms(2) have ex: "\<exists>n\<in>set p. Key n = []" using last_in_set by blast
  then have eq: "Store_Get s [] loc = Some (Returns (first_match [] p))"
    using Store_Get_dep_path [OF assms(1), of "[]"] by blast
  have a: "Store_Get s [] loc = Some (Returns (Value n, None))"
    if "p = ns @ n # ms" "Key n = []" "\<forall>m\<in>set ns. Key m \<noteq> []" for ns n ms
    using first_match_unique_split [OF that] eq by simp
  have b: "Store_Get s [] loc = Some (Returns ([], None))"
    if "\<forall>n\<in>set (butlast p). Key n \<noteq> []"
    using first_match_last [OF ne _ that] assms(2) eq by simp
  from first_key_split [OF ex] obtain ns n ms where
    sp: "p = ns @ n # ms" "Key n = []" "\<forall>m\<in>set ns. Key m \<noteq> []" by blast
  have c: "Store_Get s [] loc \<noteq> Some (Returns (v, Some e))" for e v
    using a [OF sp] by simp
  have ex': "\<exists>ns n ms. p = ns @ n # ms \<and> Key n = [] \<and> (\<forall>m\<in>set ns. Key m \<noteq> [])"
    using sp by blast
  have a': "\<forall>ns n ms. p = ns @ n # ms \<and> Key n = [] \<and> (\<forall>m\<in>set ns. Key m \<noteq> []) \<longrightarrow>
       Store_Get s [] loc = Some (Returns (Value n, None))"
    using a by blast
  have b': "(\<forall>n\<in>set (butlast p). Key n \<noteq> []) \<longrightarrow> Store_Get s [] loc = Some (Returns ([], None))"
    using b by blast
  have c': "\<forall>e v. Store_Get s [] loc \<noteq> Some (Returns (v, Some e))"
    using c by blast
  show ?thesis
    by (intro conjI) (rule eq, rule ex', rule a', rule b', rule c')
qed

lemma store_e_path: "dep_path store_e 5 [node_e, root_Node]"
  by (simp add: node_at_def Store_GetNode_def MemLocation_lookup_def store_e_def
      node_e_def root_Node_def MaxUint64_def)

lemma store_e_built:
  "Store_Set example_hash 5 (Store_Init zero_Store) [] ''v'' 0 = Returns (5, store_e)"
  by (simp add: Store_Set_def Store_Init_def zero_Store_def newNode_def new_location_def
      example_hash_def store_e_def node_e_def)

theorem Get_empty_key_returns_first_empty_key_node_witness:
  "dep_path store_e 5 [node_e, root_Node] \<and>
   Key (last [node_e, root_Node]) = [] \<and>
   Value (last [node_e, root_Node]) = [] \<and>
   Dep (last [node_e, root_Node]) = MaxUint64 \<and>
   Key node_e = [] \<and>
   Store_Get store_e [] 5 = Some (Returns (''v'', None)) \<and>
   dep_path store_ab L2 [node_b, node_a, root_Node] \<and>
   Key (last [node_b, node_a, root_Node]) = [] \<and>
   Value (last [node_b, node_a, root_Node]) = [] \<and>
   Dep (last [node_b, node_a, root_Node]) = MaxUint64 \<and>
   Key node_b \<noteq> [] \<and> Key node_a \<noteq> [] \<and>
   Store_Get store_ab [] L2 = Some (Returns ([], None))"
proof -
  have re: "Key (last [node_e, root_Node]) = [] \<and>
      Value (last [node_e, root_Node]) = [] \<and>
      Dep (last [node_e, root_Node]) = MaxUint64"
    by (simp add: root_Node_def)
  have ke: "Key node_e = []" "Value node_e = ''v''" by (simp_all add: node_e_def)
  note te = Get_empty_key_returns_first_empty_key_node
    [OF store_e_path re, THEN conjunct2, THEN conjunct2, THEN conjunct1, rule_format,
     of "[]" node_e "[root_Node]"]
  have "Store_Get store_e [] 5 = Some (Returns (Value node_e, None))"
    by (rule te) (simp add: ke)
  then have e: "Store_Get store_e [] 5 = Some (Returns (''v'', None))" by (simp add: ke)
  have r: "Key (last [node_b, node_a, root_Node]) = [] \<and>
      Value (last [node_b, node_a, root_Node]) = [] \<and>
      Dep (last [node_b, node_a, root_Node]) = MaxUint64"
    by (simp add: root_Node_def)
  have k: "Key node_b \<noteq> []" "Key node_a \<noteq> []"
    by (simp_all add: node_a_def node_b_def)
  note ta = Get_empty_key_returns_first_empty_key_node
    [OF store_ab_path r, THEN conjunct2, THEN conjunct2, THEN conjunct2, THEN conjunct1,
     rule_format]
  have "Store_Get store_ab [] L2 = Some (Returns ([], None))"
    by (rule ta) (auto simp: k)
  then show ?thesis using store_e_path re ke e store_ab_path r k by simp
qed

section \<open>Size and the number of valid nodes\<close>

lemma newNode_Returns:
  "newNode s location dep key v = Returns s' \<Longrightarrow>
   \<exists>m. MemLocation s = Some m \<and>
     s' = s\<lparr>Size := Size s + 1,
            Nodes := Nodes s @ [\<lparr>Location = location, Dep = dep, Children = [], Key = key, Value = v\<rparr>],
            MemLocation := Some (m(location \<mapsto> int (length (Nodes s))))\<rparr>"
  by (auto simp: newNode_def Let_def split: option.splits)

lemma newNode_total:
  "MemLocation s \<noteq> None \<Longrightarrow> \<exists>s'. newNode s location dep key v = Returns s'"
  by (auto simp: newNode_def Let_def split: option.splits)

lemma RemoveNode_loop_None:
  "RemoveNode_loop location nodes = None \<longleftrightarrow> location \<notin> Location ` set nodes"
  by (induction nodes) auto

lemma RemoveNode_loop_Some:
  "location \<in> Location ` set nodes \<Longrightarrow>
   RemoveNode_loop location nodes = Some (nodes[first_slot location nodes := zero_Node])"
  by (induction nodes) (auto simp: first_slot_def)

lemma first_slot_less:
  "location \<in> Location ` set nodes \<Longrightarrow> first_slot location nodes < length nodes"
  unfolding first_slot_def
  by (induction nodes) auto

lemma RemoveNode_absent:
  "location \<notin> Location ` set (Nodes s) \<Longrightarrow> RemoveNode s location = s"
  using RemoveNode_loop_None [of location "Nodes s"]
  by (simp add: RemoveNode_def)

lemma RemoveNode_present:
  "location \<in> Location ` set (Nodes s) \<Longrightarrow>
   RemoveNode s location =
     s\<lparr>Nodes := (Nodes s)[first_slot location (Nodes s) := zero_Node], Size := Size s - 1\<rparr>"
  by (simp add: RemoveNode_def RemoveNode_loop_Some)

lemma length_filter_update:
  "i < length xs \<Longrightarrow> P (xs ! i) \<Longrightarrow> \<not> P y \<Longrightarrow>
   int (length (filter P (xs[i := y]))) = int (length (filter P xs)) - 1"
proof (induction xs arbitrary: i)
  case Nil
  then show ?case by simp
next
  case (Cons x xs)
  then show ?case by (cases i) auto
qed

lemma RemoveNode_size_ok:
  assumes "size_ok s" "location \<in> Location ` set (Nodes s)"
    and "valid (Nodes s ! first_slot location (Nodes s))"
  shows "size_ok (RemoveNode s location)"
  using assms first_slot_less [OF assms(2)]
  by (simp add: RemoveNode_present size_ok_def valid_count_def length_filter_update valid_def
      zero_Node_def)

lemma RemoveNode_length [simp]: "length (Nodes (RemoveNode s location)) = length (Nodes s)"
  by (cases "location \<in> Location ` set (Nodes s)")
    (simp_all add: RemoveNode_present RemoveNode_absent)

lemma RemoveNode_MemLocation [simp]: "MemLocation (RemoveNode s location) = MemLocation s"
  by (cases "location \<in> Location ` set (Nodes s)")
    (simp_all add: RemoveNode_present RemoveNode_absent)

lemma Store_Init_size_ok: "size_ok s \<Longrightarrow> size_ok (Store_Init s)"
  by (simp add: Store_Init_def size_ok_def valid_count_def valid_def root_Node_def)

lemma Store_GetNode_Some:
  "Store_GetNode s loc = Returns (Some p) \<Longrightarrow> p < length (Nodes s)"
  by (auto simp: Store_GetNode_def split: option.splits if_splits)

lemma Store_AddChild_Returns:
  assumes "Store_AddChild s location child = Returns (p, s')"
  shows "Store_GetNode s location = Returns (Some p) \<and> p < length (Nodes s) \<and>
   s' = s\<lparr>Nodes := (Nodes s)[p := (Nodes s ! p)\<lparr>Children := Children (Nodes s ! p) @ [child]\<rparr>]\<rparr>"
proof -
  from assms obtain node where g: "Store_GetNode s location = Returns node"
    and r: "(case node of None \<Rightarrow> Panics NilDereference
        | Some p \<Rightarrow> Returns (p, s\<lparr>Nodes :=
             (Nodes s)[p := (Nodes s ! p)\<lparr>Children := Children (Nodes s ! p) @ [child]\<rparr>]\<rparr>))
       = Returns (p, s')"
    unfolding Store_AddChild_def then_do_eq_Returns by blast
  from r obtain q where q: "node = Some q" by (cases node) simp_all
  from r q have qp: "q = p" by simp
  from r q have
    "s' = s\<lparr>Nodes := (Nodes s)[p := (Nodes s ! p)\<lparr>Children := Children (Nodes s ! p) @ [child]\<rparr>]\<rparr>"
    unfolding qp by simp
  with g q qp Store_GetNode_Some [of s location p] show ?thesis by simp
qed

lemma length_filter_valid_Children:
  "length (filter valid (xs[p := (xs ! p)\<lparr>Children := c\<rparr>])) = length (filter valid xs)"
proof (induction xs arbitrary: p)
  case Nil
  then show ?case by simp
next
  case (Cons x xs)
  then show ?case by (cases p) (auto simp: valid_def)
qed

lemma Store_AddChild_size_ok:
  "size_ok s \<Longrightarrow> Store_AddChild s location child = Returns (p, s') \<Longrightarrow> size_ok s'"
  by (auto dest!: Store_AddChild_Returns
      simp: size_ok_def valid_count_def length_filter_valid_Children)

lemma newNode_size_ok_iff:
  assumes "size_ok s" "newNode s location dep key v = Returns s'"
  shows "Size s' = Size s + 1 \<and>
         Nodes s' = Nodes s @ [\<lparr>Location = location, Dep = dep, Children = [], Key = key, Value = v\<rparr>] \<and>
         (size_ok s' \<longleftrightarrow> key \<noteq> [])"
  using assms newNode_Returns [OF assms(2)]
  by (auto simp: size_ok_def valid_count_def valid_def)

text \<open>
  Where the equality of \<^verbatim>\<open>Size\<close> and the number of valid nodes survives an operation,
  from a state in which it holds: after \<^verbatim>\<open>newNode\<close>, \<^verbatim>\<open>Set\<close> and \<^verbatim>\<open>AddNode\<close> exactly when the
  key stored is not empty; after \<^verbatim>\<open>RemoveNode\<close> when the first slot with the location held
  a valid node, or when no slot has the location; after \<^verbatim>\<open>Init\<close> and \<^verbatim>\<open>AddChild\<close>.
\<close>

lemma size_ok_after_store_operations:
  assumes "size_ok s"
  shows
   "(newNode s location dep key v = Returns s1 \<longrightarrow>
       Size s1 = Size s + 1 \<and>
       Nodes s1 = Nodes s @
         [\<lparr>Location = location, Dep = dep, Children = [], Key = key, Value = v\<rparr>] \<and>
       (size_ok s1 \<longleftrightarrow> key \<noteq> [])) \<and>
    (Store_Set hash32 r s key v dep = Returns (loc, s2) \<longrightarrow>
       Size s2 = Size s + 1 \<and>
       Nodes s2 = Nodes s @ [\<lparr>Location = loc, Dep = dep, Children = [], Key = key, Value = v\<rparr>] \<and>
       (size_ok s2 \<longleftrightarrow> key \<noteq> [])) \<and>
    (Store_AddNode s (Some n) = Returns s3 \<longrightarrow>
       Size s3 = Size s + 1 \<and> Nodes s3 = Nodes s @ [n\<lparr>Children := []\<rparr>] \<and>
       (size_ok s3 \<longleftrightarrow> Key n \<noteq> [])) \<and>
    (location \<in> Location ` set (Nodes s) \<longrightarrow>
       Size (RemoveNode s location) = Size s - 1 \<and>
       Nodes (RemoveNode s location) = (Nodes s)[first_slot location (Nodes s) := zero_Node] \<and>
       Key (Nodes (RemoveNode s location) ! first_slot location (Nodes s)) = []) \<and>
    (location \<in> Location ` set (Nodes s) \<and> valid (Nodes s ! first_slot location (Nodes s)) \<longrightarrow>
       size_ok (RemoveNode s location)) \<and>
    (location \<notin> Location ` set (Nodes s) \<longrightarrow> RemoveNode s location = s) \<and>
    size_ok (Store_Init s) \<and>
    (Store_AddChild s location child = Returns (q, s4) \<longrightarrow> size_ok s4)"
proof -
  have a: "Size s1 = Size s + 1 \<and>
       Nodes s1 = Nodes s @
         [\<lparr>Location = location, Dep = dep, Children = [], Key = key, Value = v\<rparr>] \<and>
       (size_ok s1 \<longleftrightarrow> key \<noteq> [])"
    if "newNode s location dep key v = Returns s1"
    using newNode_size_ok_iff [OF assms that] .
  have b: "Size s2 = Size s + 1 \<and>
       Nodes s2 = Nodes s @ [\<lparr>Location = loc, Dep = dep, Children = [], Key = key, Value = v\<rparr>] \<and>
       (size_ok s2 \<longleftrightarrow> key \<noteq> [])"
    if "Store_Set hash32 r s key v dep = Returns (loc, s2)"
    using newNode_size_ok_iff [OF assms] Store_Set_Returns [OF that] by blast
  have c: "Size s3 = Size s + 1 \<and> Nodes s3 = Nodes s @ [n\<lparr>Children := []\<rparr>] \<and>
       (size_ok s3 \<longleftrightarrow> Key n \<noteq> [])"
    if "Store_AddNode s (Some n) = Returns s3"
  proof -
    from that have "newNode s (Location n) (Dep n) (Key n) (Value n) = Returns s3"
      by (simp add: Store_AddNode_def)
    from newNode_size_ok_iff [OF assms this] show ?thesis
      by (cases n) simp
  qed
  have d: "Size (RemoveNode s location) = Size s - 1 \<and>
       Nodes (RemoveNode s location) = (Nodes s)[first_slot location (Nodes s) := zero_Node] \<and>
       Key (Nodes (RemoveNode s location) ! first_slot location (Nodes s)) = []"
    if "location \<in> Location ` set (Nodes s)"
    using first_slot_less [OF that]
    by (simp add: RemoveNode_present [OF that] zero_Node_def)
  have d': "size_ok (RemoveNode s location)"
    if "location \<in> Location ` set (Nodes s)" "valid (Nodes s ! first_slot location (Nodes s))"
    using RemoveNode_size_ok [OF assms that] .
  have e: "RemoveNode s location = s" if "location \<notin> Location ` set (Nodes s)"
    using RemoveNode_absent [OF that] .
  have f: "size_ok s4" if "Store_AddChild s location child = Returns (q, s4)"
    using Store_AddChild_size_ok [OF assms that] .
  show ?thesis
    using a b c d d' e f Store_Init_size_ok [OF assms] by blast
qed

text \<open>
  C7. \<^verbatim>\<open>Size\<close> is declared as the size of the valid nodes, and every store operation
  should keep it equal to the number of nodes with a non-empty key. The code loses the
  equality in two places. On the store that \<^verbatim>\<open>Init\<close> makes, where both numbers are 0,
  \<^verbatim>\<open>RemoveNode(0)\<close> finds the root, whose location is 0: it overwrites the root with the
  zero node, so that slot 0 has the dep 0 instead of \<open>2^64 - 1\<close>, and decrements \<^verbatim>\<open>Size\<close>
  to -1 although no valid node is gone. On the same store \<^verbatim>\<open>Set("", "v", 0)\<close> appends a
  node that is not valid and increments \<^verbatim>\<open>Size\<close> to 1 while the number of valid nodes
  stays 0.
\<close>

theorem RemoveNode_root_and_Set_empty_key_break_Size:
  "size_ok (Store_Init zero_Store) \<and>
   Size (Store_Init zero_Store) = 0 \<and>
   valid_count (Store_Init zero_Store) = 0 \<and>
   0 \<in> Location ` set (Nodes (Store_Init zero_Store)) \<and>
   RemoveNode (Store_Init zero_Store) 0 =
     \<lparr>Nodes = [zero_Node], MemLocation = Some [0 \<mapsto> 0], Size = - 1\<rparr> \<and>
   Dep (Nodes (RemoveNode (Store_Init zero_Store) 0) ! 0) = 0 \<and>
   valid_count (RemoveNode (Store_Init zero_Store) 0) = 0 \<and>
   \<not> size_ok (RemoveNode (Store_Init zero_Store) 0) \<and>
   Store_Set example_hash 5 (Store_Init zero_Store) [] ''v'' 0 = Returns (5, store_e) \<and>
   Size store_e = 1 \<and>
   valid_count store_e = 0 \<and>
   \<not> size_ok store_e"
  by (simp add: size_ok_def valid_count_def valid_def Store_Init_def zero_Store_def
      RemoveNode_def root_Node_def zero_Node_def Store_Set_def newNode_def new_location_def
      example_hash_def store_e_def node_e_def)

section \<open>The nodes that a split migrates\<close>

lemma splitRange_keys_eq:
  "splitRange_keys keyHash i nodes keys =
     keys @ map (\<lambda>n. keyHash (Location n)) (filter valid (if i = 0 then tl nodes else nodes))"
proof (induction nodes arbitrary: i keys)
  case Nil
  then show ?case by simp
next
  case (Cons node nodes)
  have v: "valid node \<longleftrightarrow> Key node \<noteq> []" by (simp add: valid_def)
  show ?case
  proof (cases "i = 0")
    case True
    then show ?thesis using Cons.IH [of "i + 1" keys] by simp
  next
    case False
    then show ?thesis
      using Cons.IH [of "i + 1" keys] Cons.IH [of "i + 1" "keys @ [keyHash (Location node)]"] v
      by simp
  qed
qed

lemma slot0_invalid_tl: "slot0_invalid nodes \<Longrightarrow> filter valid (tl nodes) = filter valid nodes"
proof (cases nodes)
  case Nil
  then show ?thesis by simp
next
  case (Cons n ns)
  assume "slot0_invalid nodes"
  with Cons have "\<not> valid n" by (simp add: slot0_invalid_def valid_def)
  with Cons show ?thesis by simp
qed

lemma splitRange_count_eq:
  "splitRange_count mid keys (le, g) =
     (le + int (length (filter (\<lambda>key. key \<le> mid) keys)),
      g + int (length (filter (\<lambda>key. key > mid) keys)))"
  by (induction keys arbitrary: le g) auto

lemma drop_eq_Cons:
  "drop i xs = y # ys \<Longrightarrow> i < length xs \<and> xs ! i = y \<and> drop (Suc i) xs = ys"
proof (induction xs arbitrary: i)
  case Nil
  then show ?case by simp
next
  case (Cons x xs)
  then show ?case by (cases i) auto
qed

lemma splitRange_results_eq:
  "drop i keys = map (\<lambda>n. keyHash (Location n)) (filter valid nodes) \<Longrightarrow>
   splitRange_results moves keys i nodes results =
     Returns (results @ filter (\<lambda>n. valid n \<and> moves (keyHash (Location n))) nodes)"
proof (induction nodes arbitrary: i results)
  case Nil
  then show ?case by simp
next
  case (Cons node nodes)
  show ?case
  proof (cases "Key node = []")
    case True
    then have v: "\<not> valid node" by (simp add: valid_def)
    with Cons.prems have "drop i keys = map (\<lambda>n. keyHash (Location n)) (filter valid nodes)"
      by simp
    from Cons.IH [OF this] True v show ?thesis by simp
  next
    case False
    then have v: "valid node" by (simp add: valid_def)
    with Cons.prems have
      "drop i keys = keyHash (Location node) # map (\<lambda>n. keyHash (Location n)) (filter valid nodes)"
      by simp
    from drop_eq_Cons [OF this] have i: "i < length keys" "keys ! i = keyHash (Location node)"
      and d: "drop (i + 1) keys = map (\<lambda>n. keyHash (Location n)) (filter valid nodes)"
      by simp_all
    from Cons.IH [OF d] False v i show ?thesis by simp
  qed
qed

lemma length_filter_map:
  "length (filter P (map f xs)) = length (filter (\<lambda>x. P (f x)) xs)"
  by (induction xs) auto

lemma length_filter_filter:
  "length (filter P (filter Q xs)) = length (filter (\<lambda>x. Q x \<and> P x) xs)"
  by (induction xs) auto

lemma splitRange_select_eq:
  assumes "slot0_invalid nodes"
  shows
   "let mid = splitRange_mid left right;
        low = filter (\<lambda>n. valid n \<and> keyHash (Location n) \<le> mid) nodes;
        high = filter (\<lambda>n. valid n \<and> keyHash (Location n) > mid) nodes
    in splitRange_select keyHash self server left right nodes =
         (if length high \<ge> length low
          then Returns (low, \<lparr>Left = left, Right = right, Mid = mid,
                               LeftServer = server, RightServer = self\<rparr>)
          else Returns (high, \<lparr>Left = left, Right = right, Mid = mid,
                                LeftServer = self, RightServer = server\<rparr>))"
proof -
  define mid where "mid = splitRange_mid left right"
  define keys where "keys = splitRange_keys keyHash 0 nodes []"
  have keys: "keys = map (\<lambda>n. keyHash (Location n)) (filter valid nodes)"
    unfolding keys_def by (simp add: splitRange_keys_eq slot0_invalid_tl [OF assms])
  then have d: "drop 0 keys = map (\<lambda>n. keyHash (Location n)) (filter valid nodes)"
    by simp
  have c: "splitRange_count mid keys (0, 0) =
      (int (length (filter (\<lambda>n. valid n \<and> keyHash (Location n) \<le> mid) nodes)),
       int (length (filter (\<lambda>n. valid n \<and> keyHash (Location n) > mid) nodes)))"
    by (simp add: splitRange_count_eq keys length_filter_map length_filter_filter)
  have r: "splitRange_results moves keys 0 nodes [] =
      Returns (filter (\<lambda>n. valid n \<and> moves (keyHash (Location n))) nodes)" for moves
    using splitRange_results_eq [OF d, of moves "[]"] by simp
  show ?thesis
    unfolding splitRange_select_def Let_def mid_def [symmetric] keys_def [symmetric] c
    by (simp add: r)
qed

text \<open>
  C5. In \<^verbatim>\<open>splitRange\<close>, with \<open>G\<close> the number of valid local nodes whose hash is above
  \<^verbatim>\<open>mid\<close> and \<open>L\<close> the number of those whose hash is at most \<^verbatim>\<open>mid\<close>: when \<open>G \<ge> L\<close> the
  migrated nodes are exactly the valid nodes with hash at most \<^verbatim>\<open>mid\<close>, in slot order,
  \<^verbatim>\<open>leftServer\<close> is the chosen peer and \<^verbatim>\<open>rightServer\<close> is the server itself; otherwise they
  are exactly the valid nodes with hash above \<^verbatim>\<open>mid\<close>, \<^verbatim>\<open>leftServer\<close> is the server itself
  and \<^verbatim>\<open>rightServer\<close> the peer. The hash of a node is \<^verbatim>\<open>utils.KeyHash\<close> of its location.
  Slot 0 holds no valid node, as in every store after \<^verbatim>\<open>Init\<close>.
\<close>

theorem splitRange_select_migrated_nodes:
  assumes "slot0_invalid nodes"
  shows
   "let mid = splitRange_mid left right;
        low = filter (\<lambda>n. valid n \<and> keyHash (Location n) \<le> mid) nodes;
        high = filter (\<lambda>n. valid n \<and> keyHash (Location n) > mid) nodes
    in splitRange_select keyHash self server left right nodes =
         (if length high \<ge> length low
          then Returns (low, \<lparr>Left = left, Right = right, Mid = mid,
                               LeftServer = server, RightServer = self\<rparr>)
          else Returns (high, \<lparr>Left = left, Right = right, Mid = mid,
                                LeftServer = self, RightServer = server\<rparr>))"
  using splitRange_select_eq [OF assms] .

lemma splitRange_mid_full: "splitRange_mid 0 (2 ^ 32 - 1) = 2 ^ 31 - 1"
proof -
  have "unat (splitRange_mid 0 (2 ^ 32 - 1)) = unat (2 ^ 31 - 1 :: u32)"
    by (simp add: splitRange_mid_unat)
  then show ?thesis by (simp only: word_unat_eq_iff)
qed

lemma splitRange_mid_upper: "splitRange_mid 3489660928 (2 ^ 32 - 1) = 3892314111"
proof -
  have "unat (splitRange_mid 3489660928 (2 ^ 32 - 1)) = unat (3892314111 :: u32)"
    by (simp add: splitRange_mid_unat)
  then show ?thesis by (simp only: word_unat_eq_iff)
qed

lemma split_nodes_slot0: "slot0_invalid split_nodes"
  by (simp add: slot0_invalid_def split_nodes_def root_Node_def)

lemma split_nodes_hashes:
  "high32 L1 = 1" "high32 L3 = 3221225472" "high32 L4 = 3489660928" "high32 0 = 0"
  by (simp_all add: high32_def L1_def L3_def L4_def drop_bit_eq_div)

lemma split_nodes_fields:
  "Key root_Node = []" "Key zero_Node = []" "Key node_a = ''a''" "Key node_c = ''c''"
  "Key node_d = ''d''" "Location root_Node = 0" "Location zero_Node = 0"
  "Location node_a = L1" "Location node_c = L3" "Location node_d = L4"
  by (simp_all add: root_Node_def zero_Node_def node_a_def node_c_def node_d_def)

theorem splitRange_select_migrated_nodes_witness:
  "slot0_invalid split_nodes \<and>
   splitRange_select high32 ''A'' ''B'' 0 (2 ^ 32 - 1) split_nodes =
     Returns ([node_a], \<lparr>Left = 0, Right = 2 ^ 32 - 1, Mid = 2 ^ 31 - 1,
                         LeftServer = ''B'', RightServer = ''A''\<rparr>) \<and>
   splitRange_select high32 ''A'' ''B'' 3489660928 (2 ^ 32 - 1) split_nodes =
     Returns ([], \<lparr>Left = 3489660928, Right = 2 ^ 32 - 1, Mid = 3892314111,
                   LeftServer = ''A'', RightServer = ''B''\<rparr>)"
proof -
  have a: "splitRange_select high32 ''A'' ''B'' 0 (2 ^ 32 - 1) split_nodes =
     Returns ([node_a], \<lparr>Left = 0, Right = 2 ^ 32 - 1, Mid = 2 ^ 31 - 1,
                         LeftServer = ''B'', RightServer = ''A''\<rparr>)"
    using splitRange_select_migrated_nodes
      [OF split_nodes_slot0, of 0 "2 ^ 32 - 1" high32 "''A''" "''B''"]
    unfolding Let_def splitRange_mid_full
    by (simp add: split_nodes_def valid_def split_nodes_fields split_nodes_hashes)
  have b: "splitRange_select high32 ''A'' ''B'' 3489660928 (2 ^ 32 - 1) split_nodes =
     Returns ([], \<lparr>Left = 3489660928, Right = 2 ^ 32 - 1, Mid = 3892314111,
                   LeftServer = ''A'', RightServer = ''B''\<rparr>)"
    using splitRange_select_migrated_nodes
      [OF split_nodes_slot0, of 3489660928 "2 ^ 32 - 1" high32 "''A''" "''B''"]
    unfolding Let_def splitRange_mid_upper
    by (simp add: split_nodes_def valid_def split_nodes_fields split_nodes_hashes)
  show ?thesis using split_nodes_slot0 a b by simp
qed

text \<open>
  What \<^verbatim>\<open>splitRange\<close> hands to the RPCs that carry the split out, once the range is not
  a single hash, a peer is available and grants its lock.
\<close>

lemma splitRange_hands_over_selection:
  assumes "Range env (Self s) = (left, right)" "left \<noteq> right"
    and "AvailableServers s \<noteq> []"
    and "server = AvailableServers s ! (pick mod length (AvailableServers s))"
    and "Dial env server = None"
    and "SetIndexingLock_reply env server True = (Some (SetIndexingLockResponse True), None)"
    and "slot0_invalid (Nodes store)"
    and "mid = splitRange_mid left right"
    and "low = filter (\<lambda>n. valid n \<and> KeyHash env (Location n) \<le> mid) (Nodes store)"
    and "high = filter (\<lambda>n. valid n \<and> KeyHash env (Location n) > mid) (Nodes store)"
  shows "splitRange env pick s store =
    (if length high \<ge> length low
     then migrate env s store server low
            \<lparr>Left = left, Right = right, Mid = mid, LeftServer = server, RightServer = Self s\<rparr>
     else migrate env s store server high
            \<lparr>Left = left, Right = right, Mid = mid, LeftServer = Self s, RightServer = server\<rparr>)"
proof -
  have sel: "splitRange_select (KeyHash env) (Self s) server left right (Nodes store) =
      (if length high \<ge> length low
       then Returns (low, \<lparr>Left = left, Right = right, Mid = mid,
                            LeftServer = server, RightServer = Self s\<rparr>)
       else Returns (high, \<lparr>Left = left, Right = right, Mid = mid,
                             LeftServer = Self s, RightServer = server\<rparr>))"
    using splitRange_select_eq [OF assms(7), of left right "KeyHash env" "Self s" server]
    by (simp add: Let_def assms(8-10))
  show ?thesis
    unfolding splitRange_def
    using assms(1-3) assms(5,6) [unfolded assms(4)]
    by (simp add: Let_def sel [unfolded assms(4)] assms(4))
qed

section \<open>Slot 0 of a reachable store\<close>

text \<open>
  Slot 0 of a reachable store never holds a valid node: \<^verbatim>\<open>Init\<close> puts the root there,
  and the only writes to a slot that exists clear it or change its children.
\<close>

lemma slot0_invalid_update_Children:
  "slot0_invalid nodes \<Longrightarrow> slot0_invalid (nodes[p := (nodes ! p)\<lparr>Children := c\<rparr>])"
  by (cases nodes; cases p) (simp_all add: slot0_invalid_def)

lemma slot0_invalid_RemoveNode_loop:
  "slot0_invalid nodes \<Longrightarrow> RemoveNode_loop location nodes = Some nodes' \<Longrightarrow>
   slot0_invalid nodes'"
  by (cases nodes) (auto simp: slot0_invalid_def zero_Node_def split: if_splits)

lemma reachable_slot0_invalid: "reachable s \<Longrightarrow> Nodes s \<noteq> [] \<and> slot0_invalid (Nodes s)"
proof (induction rule: reachable.induct)
  case reachable_Init
  then show ?case
    by (simp add: Store_Init_def zero_Store_def slot0_invalid_def root_Node_def)
next
  case (reachable_newNode s location dep key val s')
  from newNode_Returns [OF reachable_newNode.hyps(2)] reachable_newNode.IH
  show ?case by (cases "Nodes s") (auto simp: slot0_invalid_def)
next
  case (reachable_RemoveNode s location)
  show ?case
  proof (cases "RemoveNode_loop location (Nodes s)")
    case None
    with reachable_RemoveNode.IH show ?thesis by (simp add: RemoveNode_def)
  next
    case (Some nodes')
    from slot0_invalid_RemoveNode_loop [OF _ Some] reachable_RemoveNode.IH
    have "slot0_invalid nodes'" by simp
    moreover have "nodes' \<noteq> []"
      using Some reachable_RemoveNode.IH by (cases "Nodes s") (auto split: if_splits)
    ultimately show ?thesis using Some by (simp add: RemoveNode_def)
  qed
next
  case (reachable_AddChild s location child p s')
  from Store_AddChild_Returns [OF reachable_AddChild.hyps(2)] reachable_AddChild.IH
  show ?case by (simp add: slot0_invalid_update_Children)
next
  case (reachable_clear_Children s p)
  then show ?case by (simp add: slot0_invalid_update_Children)
qed

section \<open>Forwarded requests\<close>

lemma Server_Get_forwarded:
  "LocateKey env key \<noteq> Self s \<Longrightarrow> Dial env (LocateKey env key) = None \<Longrightarrow>
   Server_Get env s store key location =
     Some (Returns (Get_reply env (LocateKey env key) key location))"
  by (simp add: Server_Get_def)

lemma Server_GetNode_forwarded:
  "Locate env (KeyHash env location) \<noteq> Self s \<Longrightarrow>
   Dial env (Locate env (KeyHash env location)) = None \<Longrightarrow>
   Server_GetNode env s store location =
     Returns (GetNode_reply env (Locate env (KeyHash env location)) location)"
  by (simp add: Server_GetNode_def)

lemma Server_AddChild_forwarded:
  "Locate env (KeyHash env location) \<noteq> Self s \<Longrightarrow>
   Dial env (Locate env (KeyHash env location)) = None \<Longrightarrow>
   Server_AddChild env s store location child =
     Returns (store, AddChild_reply env (Locate env (KeyHash env location)) location child)"
  by (simp add: Server_AddChild_def)

lemma Server_RemoveChildren_forwarded:
  "Locate env (KeyHash env location) \<noteq> Self s \<Longrightarrow>
   Dial env (Locate env (KeyHash env location)) = None \<Longrightarrow>
   Server_RemoveChildren env s store location =
     Returns (store, RemoveChildren_reply env (Locate env (KeyHash env location)) location)"
  by (simp add: Server_RemoveChildren_def)

lemma Server_Set_forwarded:
  assumes "LocateKey env key \<noteq> Self s" "Dial env (LocateKey env key) = None"
    and "Server_Set env r pick s store key v dep = Returns (s', store', result, err)"
  shows "result = fst (Set_reply env (LocateKey env key) key v dep) \<and> err = None"
  using assms
  by (auto simp: Server_Set_def Let_def then_do_eq_Returns split: prod.splits if_splits)

text \<open>
  C3. A data RPC that is forwarded should return the error of the remote call unchanged,
  after a single call. \<^verbatim>\<open>Get\<close>, \<^verbatim>\<open>GetNode\<close>, \<^verbatim>\<open>AddChild\<close> and \<^verbatim>\<open>RemoveChildren\<close> do (the
  four lemmas above), and \<^verbatim>\<open>Set\<close> does not: for a \<^verbatim>\<open>Set\<close> that server A forwards to B,
  where B answers with the error \<^verbatim>\<open>unavailable\<close>, A returns the nil response and no
  error, while the other four return B's error as it is.
\<close>

theorem forwarded_Set_drops_remote_error:
  "LocateKey (example_env ''B'') ''k'' = ''B'' \<and> Self server_A = ''A'' \<and>
   Dial (example_env ''B'') ''B'' = None \<and>
   Set_reply (example_env ''B'') ''B'' ''k'' ''v'' 0 = (None, Some (Error ''unavailable'')) \<and>
   Server_Set (example_env ''B'') 5 0 server_A store_ab ''k'' ''v'' 0 =
     Returns (server_A, store_ab, None, None) \<and>
   Server_Get (example_env ''B'') server_A store_ab ''k'' 0 =
     Some (Returns (None, Some (Error ''unavailable''))) \<and>
   Server_GetNode (example_env ''B'') server_A store_ab L1 =
     Returns (None, Some (Error ''unavailable'')) \<and>
   Server_AddChild (example_env ''B'') server_A store_ab L1 L2 =
     Returns (store_ab, None, Some (Error ''unavailable'')) \<and>
   Server_RemoveChildren (example_env ''B'') server_A store_ab L1 =
     Returns (store_ab, None, Some (Error ''unavailable''))"
  by (simp add: Server_Set_def Server_Get_def Server_GetNode_def Server_AddChild_def
      Server_RemoveChildren_def example_env_def server_A_def store_ab_def Let_def)


section \<open>Set when the merge function's answer does not decode\<close>

lemma Server_AddChild_store:
  assumes "Server_AddChild env s store location child = Returns (store', reply)"
  shows "store' = store \<or>
    (\<exists>p c. p < length (Nodes store) \<and>
       store' = store\<lparr>Nodes := (Nodes store)[p := (Nodes store ! p)\<lparr>Children := c\<rparr>]\<rparr>)"
proof (cases "Locate env (KeyHash env location) = Self s")
  case True
  with assms obtain p st where a: "Store_AddChild store location child = Returns (p, st)"
    and "store' = st"
    by (auto simp: Server_AddChild_def Let_def then_do_eq_Returns)
  with Store_AddChild_Returns [OF a] show ?thesis by blast
next
  case False
  with assms have "store' = store"
    by (auto simp: Server_AddChild_def Let_def split: option.splits)
  then show ?thesis by simp
qed

lemma Server_AddChild_keeps:
  assumes "Server_AddChild env s store location child = Returns (store', reply)"
  shows "MemLocation store' = MemLocation store \<and> Size store' = Size store \<and>
    length (Nodes store') = length (Nodes store) \<and>
    Location (Nodes store' ! i) = Location (Nodes store ! i) \<and>
    Dep (Nodes store' ! i) = Dep (Nodes store ! i) \<and>
    Key (Nodes store' ! i) = Key (Nodes store ! i) \<and>
    Value (Nodes store' ! i) = Value (Nodes store ! i)"
proof -
  from Server_AddChild_store [OF assms] show ?thesis
  proof
    assume "store' = store"
    then show ?thesis by simp
  next
    assume "\<exists>p c. p < length (Nodes store) \<and>
       store' = store\<lparr>Nodes := (Nodes store)[p := (Nodes store ! p)\<lparr>Children := c\<rparr>]\<rparr>"
    then obtain p c where p: "p < length (Nodes store)"
      and s: "store' = store\<lparr>Nodes := (Nodes store)[p := (Nodes store ! p)\<lparr>Children := c\<rparr>]\<rparr>"
      by blast
    show ?thesis
      unfolding s using p by (cases "i = p") simp_all
  qed
qed

text \<open>
  C8. When a \<^verbatim>\<open>Set\<close> is handled locally, its dep is not 0, the parent that \<^verbatim>\<open>AddChild\<close>
  answers with has more than one child, a merge function is named for the dep (or
  globally) and its answer does not decode, then \<^verbatim>\<open>Set\<close> returns the decoding error
  together with a response that carries the location of the node just created. The
  store it leaves is the one after \<^verbatim>\<open>AddChild\<close>: the new node is still in it, in the slot
  after the old ones, found under its location, with the key, value and dep of the
  request, and \<^verbatim>\<open>Size\<close> is one more than before. Nothing is rolled back.
\<close>

theorem Set_decode_error_returns_location_and_keeps_node:
  assumes "LocateKey env key = Self s"
    and "Store_Set (Hash32 env) r store key v dep = Returns (loc, store1)"
    and "dep \<noteq> 0"
    and "Server_AddChild env s store1 dep loc = Returns (store2, Some parent, e)"
    and "length (Children parent) > 1"
    and "merge = (case mergeFunction s dep of Some f \<Rightarrow> f | None \<Rightarrow> globalMergeFunction s)"
    and "length merge > 0"
    and "Unmarshal env (CallAction env merge (Marshal env parent)) = Inl err"
  shows "Server_Set env r pick s store key v dep =
           Returns (s, store2, Some (SetResponse loc), Some err) \<and>
         Store_GetNode store2 loc = Returns (Some (length (Nodes store))) \<and>
         Location (Nodes store2 ! length (Nodes store)) = loc \<and>
         Dep (Nodes store2 ! length (Nodes store)) = dep \<and>
         Key (Nodes store2 ! length (Nodes store)) = key \<and>
         Value (Nodes store2 ! length (Nodes store)) = v \<and>
         length (Nodes store2) = length (Nodes store) + 1 \<and>
         Size store2 = Size store + 1"
proof -
  have ret: "Server_Set env r pick s store key v dep =
      Returns (s, store2, Some (SetResponse loc), Some err)"
    using assms(1-5) assms(7,8) [unfolded assms(6)]
    by (simp add: Server_Set_def Let_def)
  from Store_Set_Returns [OF assms(2)] have n: "newNode store loc dep key v = Returns store1"
    by (rule conjunct2)
  from newNode_Returns [OF n] obtain m where m: "MemLocation store = Some m"
    and s1: "store1 = store\<lparr>Size := Size store + 1,
            Nodes := Nodes store @ [\<lparr>Location = loc, Dep = dep, Children = [], Key = key, Value = v\<rparr>],
            MemLocation := Some (m(loc \<mapsto> int (length (Nodes store))))\<rparr>"
    by blast
  note k = Server_AddChild_keeps [OF assms(4), of "length (Nodes store)"]
  have g: "Store_GetNode store2 loc = Returns (Some (length (Nodes store)))"
    using k by (simp add: Store_GetNode_def MemLocation_lookup_def s1)
  show ?thesis
    using ret g k by (simp add: s1)
qed

lemma fork_Store_Set:
  "Store_Set (Hash32 (example_env ''A'')) 13 store_ab ''c'' ''3'' L1 = Returns (L5, store_fork1)"
  by (simp add: Store_Set_def newNode_def new_location_def example_env_def example_hash_def
      store_ab_def store_fork1_def node_fork_def L5_def)

lemma fork_AddChild:
  "Server_AddChild (example_env ''A'') server_A store_fork1 L1 L5 =
     Returns (store_fork2, Some (node_a\<lparr>Children := [L2, L5]\<rparr>), None)"
  by (simp add: Server_AddChild_def Store_AddChild_def Store_GetNode_def MemLocation_lookup_def
      example_env_def server_A_def store_fork1_def store_fork2_def node_a_def L1_def L2_def L5_def)

theorem Set_decode_error_returns_location_and_keeps_node_witness:
  "LocateKey (example_env ''A'') ''c'' = Self server_A \<and>
   Store_Set (Hash32 (example_env ''A'')) 13 store_ab ''c'' ''3'' L1 = Returns (L5, store_fork1) \<and>
   L1 \<noteq> 0 \<and>
   Server_AddChild (example_env ''A'') server_A store_fork1 L1 L5 =
     Returns (store_fork2, Some (node_a\<lparr>Children := [L2, L5]\<rparr>), None) \<and>
   length (Children (node_a\<lparr>Children := [L2, L5]\<rparr>)) > 1 \<and>
   (case mergeFunction server_A L1 of Some f \<Rightarrow> f | None \<Rightarrow> globalMergeFunction server_A)
     = ''merge'' \<and>
   Unmarshal (example_env ''A'')
     (CallAction (example_env ''A'') ''merge''
        (Marshal (example_env ''A'') (node_a\<lparr>Children := [L2, L5]\<rparr>)))
     = Inl (Error ''invalid character'') \<and>
   Server_Set (example_env ''A'') 13 0 server_A store_ab ''c'' ''3'' L1 =
     Returns (server_A, store_fork2, Some (SetResponse L5), Some (Error ''invalid character'')) \<and>
   Store_GetNode store_fork2 L5 = Returns (Some 3) \<and>
   Nodes store_fork2 ! 3 = node_fork \<and>
   Size store_fork2 = Size store_ab + 1"
proof -
  have a: "LocateKey (example_env ''A'') ''c'' = Self server_A"
    by (simp add: example_env_def server_A_def)
  have d: "L1 \<noteq> 0" by (simp add: L1_def)
  have c: "length (Children (node_a\<lparr>Children := [L2, L5]\<rparr>)) > 1" by simp
  have m: "''merge'' =
      (case mergeFunction server_A L1 of Some f \<Rightarrow> f | None \<Rightarrow> globalMergeFunction server_A)"
    by (simp add: server_A_def)
  have l: "length ''merge'' > 0" by simp
  have u: "Unmarshal (example_env ''A'')
     (CallAction (example_env ''A'') ''merge''
        (Marshal (example_env ''A'') (node_a\<lparr>Children := [L2, L5]\<rparr>)))
     = Inl (Error ''invalid character'')"
    by (simp add: example_env_def)
  note t = Set_decode_error_returns_location_and_keeps_node
    [OF a fork_Store_Set d fork_AddChild c m l u, of 0]
  have "length (Nodes store_ab) = 3" by (simp add: store_ab_def)
  with t have "Server_Set (example_env ''A'') 13 0 server_A store_ab ''c'' ''3'' L1 =
     Returns (server_A, store_fork2, Some (SetResponse L5), Some (Error ''invalid character''))"
    and "Store_GetNode store_fork2 L5 = Returns (Some 3)"
    and "Size store_fork2 = Size store_ab + 1"
    by simp_all
  moreover have "Nodes store_fork2 ! 3 = node_fork" by (simp add: store_fork2_def)
  ultimately show ?thesis using a fork_Store_Set d fork_AddChild c m [symmetric] u by simp
qed

end
